theory Spec2Isabelle
  imports Main "HOL-Library.Word"
begin

section \<open>Constants and types of main.c\<close>

type_synonym u8 = "8 word"
type_synonym u16 = "16 word"
type_synonym u32 = "32 word"

text \<open>
  \<^verbatim>\<open>#define NUM_DATA 9\<close>. Wherever the macro meets \<^verbatim>\<open>tx_index\<close> or
  \<^verbatim>\<open>rx_index\<close> (both \<^verbatim>\<open>uint32_t\<close>) the usual arithmetic conversions make the
  operation an unsigned 32-bit one, so the constant is a 32-bit word.
\<close>

definition NUM_DATA :: u32 where
  "NUM_DATA = 9"

definition USIC0_0_IRQn_PRIORITY :: u32 where
  "USIC0_0_IRQn_PRIORITY = 63"

definition USIC0_1_IRQn_PRIORITY :: u32 where
  "USIC0_1_IRQn_PRIORITY = 62"

text \<open>
  The two output levels are bit patterns for the port's output modification register, and
  their encoding is swapped between the two device series the file compiles for.
\<close>

datatype uc_series = XMC14 | XMC47

fun GPIO_OUTPUT_LEVEL_HIGH :: "uc_series \<Rightarrow> u32" where
  "GPIO_OUTPUT_LEVEL_HIGH XMC14 = 0x10000"
| "GPIO_OUTPUT_LEVEL_HIGH XMC47 = 0x1"

fun GPIO_OUTPUT_LEVEL_LOW :: "uc_series \<Rightarrow> u32" where
  "GPIO_OUTPUT_LEVEL_LOW XMC14 = 0x1"
| "GPIO_OUTPUT_LEVEL_LOW XMC47 = 0x10000"

text \<open>
  Constants that main.c takes from generated board headers (cycfg_peripherals.h,
  cy_result.h), which are not part of the sources: they are parameters of the model.
\<close>

record board =
  UC_SERIES :: uc_series
  CYBSP_DEBUG_UART_RXFIFO_LIMIT :: u32
  CY_RSLT_SUCCESS :: u32

datatype irqn = USIC0_0_IRQn | USIC0_1_IRQn

text \<open>
  The state: the five globals of main.c, followed by what the program can observe or change
  of the peripherals. \<open>tx_pushed\<close> lists the words handed to the transmit FIFO, oldest
  first; \<open>rx_fifo\<close> holds the words the receive FIFO will deliver before it reports
  empty; \<open>rx_limit_calls\<close> lists the limit argument of every call that reprograms the
  receive trigger limit; \<open>led\<close> is the level last written to the user LED pin.
\<close>

record state =
  tx_index :: u32
  rx_index :: u32
  flag :: u32
  tx_data :: "u8 list"
  rx_data :: "u8 list"
  tx_pushed :: "u16 list"
  rx_fifo :: "u16 list"
  rx_limit_calls :: "u32 list"
  txfifo_event :: bool
  irq0_enabled :: bool
  irq1_enabled :: bool
  irq0_priority :: u32
  irq1_priority :: u32
  uart_started :: bool
  led :: u32

text \<open>
  Ways in which a run of the code does not reach its end: the assertion halt of
  \<^verbatim>\<open>main\<close>, a busy-wait that never ends, and an array access outside the
  \<^verbatim>\<open>NUM_DATA\<close> elements of a buffer (undefined behaviour in C).
\<close>

datatype fault =
  Assert_halt
| Busy_wait_forever
| Rx_store_out_of_bounds
| Tx_read_out_of_bounds

text \<open>
  A run either ends in a state (\<open>Inr\<close>) or stops with a fault, in the state it had
  reached when it stopped (\<open>Inl\<close>).
\<close>

type_synonym outcome = "(fault \<times> state) + state"

section \<open>Peripheral primitives\<close>

text \<open>
  Modelled from the spec: the vendor's UART, USIC, GPIO and NVIC calls are not part of the
  sources. The spec treats them as opaque primitives (\<open>transmit_byte\<close>,
  \<open>receive_byte\<close>, \<open>fifo_is_empty\<close>, \<open>set_rx_trigger_limit\<close>,
  \<open>set_output_level\<close>, \<open>enable_irq\<close>, ...); each one is modelled by its effect on the
  peripheral fields of the state.
\<close>

definition XMC_UART_CH_Transmit :: "u16 \<Rightarrow> state \<Rightarrow> state" where
  "XMC_UART_CH_Transmit d s = s\<lparr>tx_pushed := tx_pushed s @ [d]\<rparr>"

definition XMC_USIC_CH_TXFIFO_DisableEvent :: "state \<Rightarrow> state" where
  "XMC_USIC_CH_TXFIFO_DisableEvent s = s\<lparr>txfifo_event := False\<rparr>"

definition XMC_USIC_CH_RXFIFO_IsEmpty :: "state \<Rightarrow> bool" where
  "XMC_USIC_CH_RXFIFO_IsEmpty s = (rx_fifo s = [])"

definition XMC_UART_CH_GetReceivedData :: "state \<Rightarrow> u16 \<times> state" where
  "XMC_UART_CH_GetReceivedData s = (hd (rx_fifo s), s\<lparr>rx_fifo := tl (rx_fifo s)\<rparr>)"

definition XMC_USIC_CH_RXFIFO_SetSizeTriggerLimit :: "u32 \<Rightarrow> state \<Rightarrow> state" where
  "XMC_USIC_CH_RXFIFO_SetSizeTriggerLimit lim s = s\<lparr>rx_limit_calls := rx_limit_calls s @ [lim]\<rparr>"

definition XMC_UART_CH_Start :: "state \<Rightarrow> state" where
  "XMC_UART_CH_Start s = s\<lparr>uart_started := True\<rparr>"

definition XMC_GPIO_SetOutputLevel :: "u32 \<Rightarrow> state \<Rightarrow> state" where
  "XMC_GPIO_SetOutputLevel lvl s = s\<lparr>led := lvl\<rparr>"

fun NVIC_SetPriority :: "irqn \<Rightarrow> u32 \<Rightarrow> state \<Rightarrow> state" where
  "NVIC_SetPriority USIC0_0_IRQn p s = s\<lparr>irq0_priority := p\<rparr>"
| "NVIC_SetPriority USIC0_1_IRQn p s = s\<lparr>irq1_priority := p\<rparr>"

fun NVIC_EnableIRQ :: "irqn \<Rightarrow> state \<Rightarrow> state" where
  "NVIC_EnableIRQ USIC0_0_IRQn s = s\<lparr>irq0_enabled := True\<rparr>"
| "NVIC_EnableIRQ USIC0_1_IRQn s = s\<lparr>irq1_enabled := True\<rparr>"

fun NVIC_DisableIRQ :: "irqn \<Rightarrow> state \<Rightarrow> state" where
  "NVIC_DisableIRQ USIC0_0_IRQn s = s\<lparr>irq0_enabled := False\<rparr>"
| "NVIC_DisableIRQ USIC0_1_IRQn s = s\<lparr>irq1_enabled := False\<rparr>"

text \<open>
  \<^verbatim>\<open>while(XMC_USIC_CH_TXFIFO_IsFull(hw));\<close> The hardware empties the transmit FIFO on
  its own, so what the loop sees is a sequence of readings of the full flag:
  \<open>txfull k\<close> is the reading at the \<open>k\<close>-th poll. The loop returns the number of the
  first poll that reads "not full", and does not return when there is none.
\<close>

partial_function (option) wait_while_TXFIFO_IsFull :: "(nat \<Rightarrow> bool) \<Rightarrow> nat \<Rightarrow> nat option" where
  "wait_while_TXFIFO_IsFull txfull k =
     (if txfull k then wait_while_TXFIFO_IsFull txfull (Suc k) else Some k)"

section \<open>The transmit handler\<close>

text \<open>
  \<^verbatim>\<open>void USIC0_0_IRQHandler(void)\<close>. The byte goes to
  \<^verbatim>\<open>XMC_UART_CH_Transmit\<close> as a 16-bit argument.
\<close>

definition USIC0_0_IRQHandler :: "(nat \<Rightarrow> bool) \<Rightarrow> state \<Rightarrow> outcome" where
  "USIC0_0_IRQHandler txfull s =
     (if tx_index s < NUM_DATA then
        (case wait_while_TXFIFO_IsFull txfull 0 of
           None \<Rightarrow> Inl (Busy_wait_forever, s)
         | Some _ \<Rightarrow>
             Inr ((XMC_UART_CH_Transmit (ucast (tx_data s ! unat (tx_index s))) s)
                    \<lparr>tx_index := tx_index s + 1\<rparr>))
      else Inr (NVIC_DisableIRQ USIC0_0_IRQn (XMC_USIC_CH_TXFIFO_DisableEvent s)))"

section \<open>The receive handler\<close>

text \<open>
  The drain loop
  \<^verbatim>\<open>while(!XMC_USIC_CH_RXFIFO_IsEmpty(hw)) rx_data[rx_index++] = XMC_UART_CH_GetReceivedData(hw);\<close>
  The received 16-bit word is truncated to the \<^verbatim>\<open>uint8_t\<close> element. The loop
  has no bound on \<^verbatim>\<open>rx_index\<close>: a store at an index outside the
  \<^verbatim>\<open>NUM_DATA\<close> elements of \<^verbatim>\<open>rx_data\<close> is the fault
  \<open>Rx_store_out_of_bounds\<close>.
\<close>

function rx_drain :: "state \<Rightarrow> outcome" where
  "rx_drain s =
     (if \<not> XMC_USIC_CH_RXFIFO_IsEmpty s then
        (let (w, s1) = XMC_UART_CH_GetReceivedData s in
           if rx_index s1 < NUM_DATA then
             rx_drain (s1\<lparr>rx_data := (rx_data s1)[unat (rx_index s1) := ucast w],
                          rx_index := rx_index s1 + 1\<rparr>)
           else Inl (Rx_store_out_of_bounds, s1))
      else Inr s)"
  by pat_completeness auto
termination
  by (relation "measure (\<lambda>s. length (rx_fifo s))")
     (auto simp: XMC_USIC_CH_RXFIFO_IsEmpty_def XMC_UART_CH_GetReceivedData_def)

text \<open>\<^verbatim>\<open>void USIC0_1_IRQHandler(void)\<close>: drain, completion check, threshold adjustment.\<close>

definition USIC0_1_IRQHandler :: "board \<Rightarrow> state \<Rightarrow> outcome" where
  "USIC0_1_IRQHandler b s =
     (case rx_drain s of
        Inl e \<Rightarrow> Inl e
      | Inr s1 \<Rightarrow>
          (let s2 = (if rx_index s1 = NUM_DATA then s1\<lparr>flag := 1\<rparr> else s1);
               s3 = (if NUM_DATA - rx_index s2 < CYBSP_DEBUG_UART_RXFIFO_LIMIT b
                     then XMC_USIC_CH_RXFIFO_SetSizeTriggerLimit ((NUM_DATA - rx_index s2) - 1) s2
                     else s2)
           in Inr s3))"

section \<open>main\<close>

text \<open>\<^verbatim>\<open>for (uint32_t i = 0; i < NUM_DATA; i++) tx_data[i] = i;\<close>\<close>

function fill_tx_data :: "u32 \<Rightarrow> state \<Rightarrow> state" where
  "fill_tx_data i s =
     (if i < NUM_DATA
      then fill_tx_data (i + 1) (s\<lparr>tx_data := (tx_data s)[unat i := ucast i]\<rparr>)
      else s)"
  by pat_completeness auto
termination
proof (relation "measure (\<lambda>(i, s). unat NUM_DATA - unat i)")
  show "wf (measure (\<lambda>(i, s). unat NUM_DATA - unat i))"
    by simp
next
  fix i :: u32 and s :: state
  assume "i < NUM_DATA"
  then have "unat i < 9"
    by (simp add: NUM_DATA_def word_less_nat_alt)
  then have "unat (i + 1) = unat i + 1"
    by (simp add: unat_word_ariths)
  with \<open>unat i < 9\<close>
  show "((i + 1, s\<lparr>tx_data := (tx_data s)[unat i := ucast i]\<rparr>), i, s)
          \<in> measure (\<lambda>(i, s). unat NUM_DATA - unat i)"
    by (simp add: NUM_DATA_def)
qed

text \<open>
  The statements of \<^verbatim>\<open>main\<close> between the initialisation check and the endless
  loop. The first byte is read at \<^verbatim>\<open>tx_data[tx_index++]\<close> with no check of the
  index: a read outside the \<^verbatim>\<open>NUM_DATA\<close> elements of \<^verbatim>\<open>tx_data\<close>
  is the fault \<open>Tx_read_out_of_bounds\<close>. (From the initial \<^verbatim>\<open>tx_index = 0\<close>
  the read is in range.)
\<close>

definition main_setup :: "board \<Rightarrow> (nat \<Rightarrow> bool) \<Rightarrow> state \<Rightarrow> outcome" where
  "main_setup b txfull s =
     (let s1 = fill_tx_data 0 s;
          s2 = NVIC_SetPriority USIC0_0_IRQn USIC0_0_IRQn_PRIORITY s1;
          s3 = NVIC_EnableIRQ USIC0_0_IRQn s2;
          s4 = NVIC_EnableIRQ USIC0_1_IRQn s3;
          s5 = NVIC_SetPriority USIC0_1_IRQn USIC0_1_IRQn_PRIORITY s4;
          s6 = XMC_UART_CH_Start s5
      in case wait_while_TXFIFO_IsFull txfull 0 of
           None \<Rightarrow> Inl (Busy_wait_forever, s6)
         | Some _ \<Rightarrow>
             if tx_index s6 < NUM_DATA then
               (let s7 = (XMC_UART_CH_Transmit (ucast (tx_data s6 ! unat (tx_index s6))) s6)
                           \<lparr>tx_index := tx_index s6 + 1\<rparr>
                in Inr (if NUM_DATA - rx_index s7 < CYBSP_DEBUG_UART_RXFIFO_LIMIT b
                        then XMC_USIC_CH_RXFIFO_SetSizeTriggerLimit ((NUM_DATA - rx_index s7) - 1) s7
                        else s7))
             else Inl (Tx_read_out_of_bounds, s6))"

text \<open>
  Modelled from the spec: the macro \<^verbatim>\<open>CY_ASSERT\<close> (cy_utils.h) is not part of the
  sources. The spec says that a failed platform initialisation "triggers an unconditional
  halt (assert/trap), fatal, non-resumable": \<^verbatim>\<open>CY_ASSERT(0)\<close> ends the run with
  \<open>Assert_halt\<close>, in the state it was called in.

  \<open>result\<close> is what \<^verbatim>\<open>cybsp_init()\<close> returned and \<open>s\<close> the state it left.
\<close>

definition main_startup :: "board \<Rightarrow> u32 \<Rightarrow> (nat \<Rightarrow> bool) \<Rightarrow> state \<Rightarrow> outcome" where
  "main_startup b result txfull s =
     (if result \<noteq> CY_RSLT_SUCCESS b then Inl (Assert_halt, s) else main_setup b txfull s)"

text \<open>
  \<^verbatim>\<open>for (int tmp = 0; tmp < NUM_DATA; tmp++)\<close>: the comparison pass. \<open>tmp\<close> runs
  from 0 to 9, so a natural number stands for the \<^verbatim>\<open>int\<close>. Each iteration writes
  the indicator: LOW when the pair at \<open>tmp\<close> differs, HIGH otherwise.
\<close>

function compare_loop :: "board \<Rightarrow> nat \<Rightarrow> state \<Rightarrow> state" where
  "compare_loop b tmp s =
     (if tmp < unat NUM_DATA then
        compare_loop b (Suc tmp)
          (if tx_data s ! tmp \<noteq> rx_data s ! tmp
           then XMC_GPIO_SetOutputLevel (GPIO_OUTPUT_LEVEL_LOW (UC_SERIES b)) s
           else XMC_GPIO_SetOutputLevel (GPIO_OUTPUT_LEVEL_HIGH (UC_SERIES b)) s)
      else s)"
  by pat_completeness auto
termination
  by (relation "measure (\<lambda>(b, tmp, s). unat NUM_DATA - tmp)") auto

text \<open>One iteration of \<^verbatim>\<open>while(1)\<close> in \<^verbatim>\<open>main\<close>.\<close>

definition main_loop_body :: "board \<Rightarrow> state \<Rightarrow> state" where
  "main_loop_body b s =
     (if flag s = 1 then (compare_loop b 0 s)\<lparr>flag := 0\<rparr> else s)"

section \<open>Sequences of handler invocations\<close>

text \<open>
  The hardware calls the receive handler once per threshold event. Each entry of the list
  is the words that arrive in the receive FIFO for one invocation.
\<close>

definition rx_arrival :: "u16 list \<Rightarrow> state \<Rightarrow> state" where
  "rx_arrival ws s = s\<lparr>rx_fifo := rx_fifo s @ ws\<rparr>"

fun rx_invocations :: "board \<Rightarrow> u16 list list \<Rightarrow> state \<Rightarrow> outcome" where
  "rx_invocations b [] s = Inr s"
| "rx_invocations b (ws # wss) s =
     (case USIC0_1_IRQHandler b (rx_arrival ws s) of
        Inl e \<Rightarrow> Inl e
      | Inr s' \<Rightarrow> rx_invocations b wss s')"


text \<open>
  The hardware takes the transmit interrupt only while its line is enabled in the NVIC and
  the FIFO event is enabled. \<^verbatim>\<open>main\<close> enables the line before it pushes the
  first byte, so the handler can run between that push and the first test of the endless
  loop: \<open>main_to_loop_entry\<close> is the run of \<^verbatim>\<open>main\<close> up to the loop with the
  transmit interrupts taken in between, one entry of \<open>irqs\<close> (the FIFO readings of that
  invocation) for each.
\<close>

definition tx_interrupt :: "(nat \<Rightarrow> bool) \<Rightarrow> state \<Rightarrow> outcome" where
  "tx_interrupt txfull s =
     (if irq0_enabled s \<and> txfifo_event s then USIC0_0_IRQHandler txfull s else Inr s)"

fun tx_interrupts :: "(nat \<Rightarrow> bool) list \<Rightarrow> state \<Rightarrow> outcome" where
  "tx_interrupts [] s = Inr s"
| "tx_interrupts (txfull # rest) s =
     (case tx_interrupt txfull s of
        Inl e \<Rightarrow> Inl e
      | Inr s' \<Rightarrow> tx_interrupts rest s')"

definition main_to_loop_entry ::
  "board \<Rightarrow> u32 \<Rightarrow> (nat \<Rightarrow> bool) \<Rightarrow> (nat \<Rightarrow> bool) list \<Rightarrow> state \<Rightarrow> outcome" where
  "main_to_loop_entry b result txfull irqs s =
     (case main_startup b result txfull s of
        Inl e \<Rightarrow> Inl e
      | Inr u \<Rightarrow> tx_interrupts irqs u)"

text \<open>
  The globals as the C initialisers leave them at program start, with idle peripherals.
\<close>

definition reset_state :: state where
  "reset_state =
     \<lparr>tx_index = 0, rx_index = 0, flag = 0,
      tx_data = replicate 9 0, rx_data = replicate 9 0,
      tx_pushed = [], rx_fifo = [], rx_limit_calls = [],
      txfifo_event = True, irq0_enabled = False, irq1_enabled = False,
      irq0_priority = 0, irq1_priority = 0, uart_started = False, led = 0\<rparr>"

text \<open>
  A board of the XMC4700 series with the receive trigger limit of seven that the comment
  above the receive handler names, and 0 as the success code.
\<close>

definition xmc47_board :: board where
  "xmc47_board = \<lparr>UC_SERIES = XMC47, CYBSP_DEBUG_UART_RXFIFO_LIMIT = 7, CY_RSLT_SUCCESS = 0\<rparr>"

section \<open>Auxiliary definitions for the statements\<close>

text \<open>The buffer after storing the words \<open>ws\<close> one by one from index \<open>k\<close> on.\<close>

fun store_words :: "nat \<Rightarrow> u16 list \<Rightarrow> u8 list \<Rightarrow> u8 list" where
  "store_words k [] xs = xs"
| "store_words k (w # ws) xs = store_words (Suc k) ws (xs[k := ucast w])"

text \<open>
  The level the comparison pass leaves on the indicator, as a function of the two buffers:
  the result for the last index.
\<close>

definition last_index_level :: "board \<Rightarrow> u8 list \<Rightarrow> u8 list \<Rightarrow> u32" where
  "last_index_level b txs rxs =
     (if txs ! (unat NUM_DATA - 1) \<noteq> rxs ! (unat NUM_DATA - 1)
      then GPIO_OUTPUT_LEVEL_LOW (UC_SERIES b)
      else GPIO_OUTPUT_LEVEL_HIGH (UC_SERIES b))"

text \<open>
  States of the scenarios of the spec: all nine bytes sent and mirrored back, and the same
  with the byte at index 8 received as 0xFF.
\<close>

definition mirrored_state :: state where
  "mirrored_state =
     reset_state\<lparr>tx_index := 9, rx_index := 9, flag := 1,
                  tx_data := [0, 1, 2, 3, 4, 5, 6, 7, 8],
                  rx_data := [0, 1, 2, 3, 4, 5, 6, 7, 8]\<rparr>"

definition corrupted_state :: state where
  "corrupted_state = mirrored_state\<lparr>rx_data := [0, 1, 2, 3, 4, 5, 6, 7, 0xFF]\<rparr>"

text \<open>The fault of an outcome, if any, and the state it ends or stops in.\<close>

definition outcome_fault :: "outcome \<Rightarrow> fault option" where
  "outcome_fault r = (case r of Inl (f, s) \<Rightarrow> Some f | Inr s \<Rightarrow> None)"

definition outcome_state :: "outcome \<Rightarrow> state" where
  "outcome_state r = (case r of Inl (f, s) \<Rightarrow> s | Inr s \<Rightarrow> s)"

text \<open>Readings of the transmit FIFO that are "full" at the first \<open>d\<close> polls only.\<close>

definition full_for :: "nat \<Rightarrow> nat \<Rightarrow> bool" where
  "full_for d k = (k < d)"

text \<open>
  Further states for the scenarios: eight bytes received, the limit lowered to 0 and the
  last byte pending in the FIFO; the first seven bytes pending; three bytes sent; and the
  state after a complete cycle with the cursors and the flag reset.
\<close>

definition tail_pending_state :: state where
  "tail_pending_state =
     rx_arrival [8]
       (reset_state\<lparr>rx_index := 8, rx_data := [0, 1, 2, 3, 4, 5, 6, 7, 0],
                     rx_limit_calls := [0]\<rparr>)"

definition seven_pending_state :: state where
  "seven_pending_state = rx_arrival [0, 1, 2, 3, 4, 5, 6] reset_state"


definition rearmed_state :: state where
  "rearmed_state = mirrored_state\<lparr>tx_index := 0, rx_index := 0, flag := 0, led := 0x1\<rparr>"

declare rx_drain.simps [simp del]
declare fill_tx_data.simps [simp del]
declare compare_loop.simps [simp del]

section \<open>Unfolding rules for concrete states\<close>

lemmas rx_eval =
  USIC0_1_IRQHandler_def rx_arrival_def reset_state_def rx_drain.simps
  XMC_USIC_CH_RXFIFO_IsEmpty_def XMC_UART_CH_GetReceivedData_def NUM_DATA_def
  xmc47_board_def XMC_USIC_CH_RXFIFO_SetSizeTriggerLimit_def Let_def
  outcome_fault_def outcome_state_def

lemmas tx_eval =
  USIC0_0_IRQHandler_def reset_state_def mirrored_state_def wait_while_TXFIFO_IsFull.simps
  full_for_def XMC_UART_CH_Transmit_def XMC_USIC_CH_TXFIFO_DisableEvent_def NUM_DATA_def
  outcome_fault_def outcome_state_def

section \<open>The comparison pass of the main loop\<close>

text \<open>The loop writes the indicator and nothing else.\<close>

lemma compare_loop_frame:
  "compare_loop b k s = s\<lparr>led := led (compare_loop b k s)\<rparr>"
proof (induction b k s rule: compare_loop.induct)
  case (1 b tmp s)
  show ?case
  proof (cases "tmp < unat NUM_DATA")
    case True
    let ?s1 = "if tx_data s ! tmp \<noteq> rx_data s ! tmp
           then XMC_GPIO_SetOutputLevel (GPIO_OUTPUT_LEVEL_LOW (UC_SERIES b)) s
           else XMC_GPIO_SetOutputLevel (GPIO_OUTPUT_LEVEL_HIGH (UC_SERIES b)) s"
    have step: "compare_loop b tmp s = compare_loop b (Suc tmp) ?s1"
      using True by (subst compare_loop.simps) simp
    have "compare_loop b (Suc tmp) ?s1 = ?s1\<lparr>led := led (compare_loop b (Suc tmp) ?s1)\<rparr>"
      using "1.IH" [OF True] .
    then show ?thesis
      unfolding step by (simp add: XMC_GPIO_SetOutputLevel_def split: if_splits)
  next
    case False
    then have "compare_loop b tmp s = s"
      by (subst compare_loop.simps) simp
    then show ?thesis by simp
  qed
qed

text \<open>
  Every iteration overwrites the level, so from any start index below \<open>NUM_DATA\<close> the
  level that remains is the one written for the last index.
\<close>

lemma compare_loop_led:
  "k < unat NUM_DATA \<Longrightarrow>
   led (compare_loop b k s) = last_index_level b (tx_data s) (rx_data s)"
proof (induction b k s rule: compare_loop.induct)
  case (1 b tmp s)
  let ?s1 = "if tx_data s ! tmp \<noteq> rx_data s ! tmp
         then XMC_GPIO_SetOutputLevel (GPIO_OUTPUT_LEVEL_LOW (UC_SERIES b)) s
         else XMC_GPIO_SetOutputLevel (GPIO_OUTPUT_LEVEL_HIGH (UC_SERIES b)) s"
  have step: "compare_loop b tmp s = compare_loop b (Suc tmp) ?s1"
    using "1.prems" by (subst compare_loop.simps) simp
  have bufs: "tx_data ?s1 = tx_data s" "rx_data ?s1 = rx_data s"
    by (simp_all add: XMC_GPIO_SetOutputLevel_def)
  show ?case
  proof (cases "Suc tmp < unat NUM_DATA")
    case True
    have "led (compare_loop b (Suc tmp) ?s1) = last_index_level b (tx_data ?s1) (rx_data ?s1)"
      using "1.IH" [OF "1.prems" True] .
    then show ?thesis
      unfolding step bufs .
  next
    case False
    with "1.prems" have tmp: "tmp = unat NUM_DATA - 1"
      by simp
    have "compare_loop b (Suc tmp) ?s1 = ?s1"
      using False by (subst compare_loop.simps) simp
    then show ?thesis
      unfolding step by (simp add: tmp last_index_level_def XMC_GPIO_SetOutputLevel_def)
  qed
qed

lemma levels_differ: "GPIO_OUTPUT_LEVEL_HIGH ser \<noteq> GPIO_OUTPUT_LEVEL_LOW ser"
  by (cases ser) simp_all

lemma main_loop_body_pass:
  "flag s = 1 \<Longrightarrow>
   main_loop_body b s = s\<lparr>flag := 0, led := last_index_level b (tx_data s) (rx_data s)\<rparr>"
proof -
  assume f: "flag s = 1"
  have n: "0 < unat NUM_DATA"
    by (simp add: NUM_DATA_def)
  have "compare_loop b 0 s = s\<lparr>led := led (compare_loop b 0 s)\<rparr>"
    by (rule compare_loop_frame)
  also have "led (compare_loop b 0 s) = last_index_level b (tx_data s) (rx_data s)"
    by (rule compare_loop_led [OF n])
  finally show ?thesis
    using f by (simp add: main_loop_body_def)
qed

text \<open>
  C1: when the main loop finds the completion flag set and runs one comparison pass over the
  nine index pairs, the indicator ends HIGH if \<open>tx_data[i] = rx_data[i]\<close> for every
  \<open>i < NUM_DATA\<close>, and it ends LOW whenever the pair at index \<open>NUM_DATA - 1\<close>
  differs, whatever the earlier pairs are; the two levels are different values.
\<close>

theorem indicator_after_comparison_pass:
  assumes "flag s = 1"
  shows "((\<forall>i. i < unat NUM_DATA \<longrightarrow> tx_data s ! i = rx_data s ! i) \<longrightarrow>
            led (main_loop_body b s) = GPIO_OUTPUT_LEVEL_HIGH (UC_SERIES b))
       \<and> (tx_data s ! (unat NUM_DATA - 1) \<noteq> rx_data s ! (unat NUM_DATA - 1) \<longrightarrow>
            led (main_loop_body b s) = GPIO_OUTPUT_LEVEL_LOW (UC_SERIES b))
       \<and> GPIO_OUTPUT_LEVEL_HIGH (UC_SERIES b) \<noteq> GPIO_OUTPUT_LEVEL_LOW (UC_SERIES b)"
proof -
  have l: "led (main_loop_body b s) = last_index_level b (tx_data s) (rx_data s)"
    by (simp add: main_loop_body_pass [OF assms])
  have n: "unat NUM_DATA - 1 < unat NUM_DATA"
    by (simp add: NUM_DATA_def)
  show ?thesis
    using n by (auto simp: l last_index_level_def levels_differ)
qed

theorem indicator_after_comparison_pass_witness:
  "flag mirrored_state = 1 \<and> flag corrupted_state = 1
   \<and> tx_data mirrored_state = rx_data mirrored_state
   \<and> led (main_loop_body xmc47_board mirrored_state) = 0x1
   \<and> tx_data corrupted_state ! 8 \<noteq> rx_data corrupted_state ! 8
   \<and> tx_data corrupted_state ! 0 = rx_data corrupted_state ! 0
   \<and> led (main_loop_body xmc47_board corrupted_state) = 0x10000"
proof -
  have f1: "flag mirrored_state = 1"
    by (simp add: mirrored_state_def reset_state_def)
  have f2: "flag corrupted_state = 1"
    by (simp add: corrupted_state_def mirrored_state_def reset_state_def)
  have e1: "tx_data mirrored_state = rx_data mirrored_state"
    by (simp add: mirrored_state_def reset_state_def)
  have e2: "tx_data corrupted_state ! 8 \<noteq> rx_data corrupted_state ! 8"
    by (simp add: corrupted_state_def mirrored_state_def reset_state_def)
  have e3: "tx_data corrupted_state ! 0 = rx_data corrupted_state ! 0"
    by (simp add: corrupted_state_def mirrored_state_def reset_state_def)
  have "led (main_loop_body xmc47_board mirrored_state) = 0x1"
    using indicator_after_comparison_pass [OF f1, of xmc47_board] e1
    by (simp add: xmc47_board_def)
  moreover have "led (main_loop_body xmc47_board corrupted_state) = 0x10000"
    using indicator_after_comparison_pass [OF f2, of xmc47_board] e2
    by (simp add: xmc47_board_def NUM_DATA_def)
  ultimately show ?thesis
    using f1 f2 e1 e2 e3 by simp
qed

text \<open>
  C10: one comparison pass changes the indicator level and the completion flag, which it
  clears to 0, and nothing else: both buffers and both cursors are as before the pass.
\<close>

theorem comparison_pass_frame:
  assumes "flag s = 1"
  shows "tx_data (main_loop_body b s) = tx_data s
       \<and> rx_data (main_loop_body b s) = rx_data s
       \<and> tx_index (main_loop_body b s) = tx_index s
       \<and> rx_index (main_loop_body b s) = rx_index s
       \<and> flag (main_loop_body b s) = 0
       \<and> main_loop_body b s = s\<lparr>flag := 0, led := led (main_loop_body b s)\<rparr>"
  by (simp add: main_loop_body_pass [OF assms])

theorem comparison_pass_frame_witness:
  "flag corrupted_state = 1
   \<and> tx_data (main_loop_body xmc47_board corrupted_state) = [0, 1, 2, 3, 4, 5, 6, 7, 8]
   \<and> rx_data (main_loop_body xmc47_board corrupted_state) = [0, 1, 2, 3, 4, 5, 6, 7, 0xFF]
   \<and> tx_index (main_loop_body xmc47_board corrupted_state) = 9
   \<and> rx_index (main_loop_body xmc47_board corrupted_state) = 9
   \<and> flag (main_loop_body xmc47_board corrupted_state) = 0"
proof -
  have f: "flag corrupted_state = 1"
    by (simp add: corrupted_state_def mirrored_state_def reset_state_def)
  show ?thesis
    using f comparison_pass_frame [OF f, of xmc47_board]
    by (simp add: corrupted_state_def mirrored_state_def reset_state_def)
qed

section \<open>The transmit handler\<close>

text \<open>A cursor below \<open>NUM_DATA\<close> does not wrap around when it is incremented.\<close>

lemma unat_cursor_succ:
  fixes c :: u32
  assumes "c < NUM_DATA"
  shows "unat (c + 1) = Suc (unat c)"
proof -
  have "unat c < 9"
    using assms by (simp add: NUM_DATA_def word_less_nat_alt)
  then show ?thesis
    by (simp add: unat_word_ariths)
qed

lemma cursor_less_iff:
  fixes c :: u32
  shows "c < NUM_DATA \<longleftrightarrow> unat c < unat NUM_DATA"
  by (simp add: word_less_nat_alt)

text \<open>
  The busy-wait returns exactly when some poll reads "not full", and the poll it returns
  at is one that read "not full".
\<close>

lemma wait_returns:
  "\<not> txfull (k + d) \<Longrightarrow> \<exists>n. wait_while_TXFIFO_IsFull txfull k = Some n"
proof (induction d arbitrary: k)
  case 0
  then show ?case
    by (subst wait_while_TXFIFO_IsFull.simps) simp
next
  case (Suc d)
  show ?case
  proof (cases "txfull k")
    case True
    then have "wait_while_TXFIFO_IsFull txfull k = wait_while_TXFIFO_IsFull txfull (Suc k)"
      by (subst wait_while_TXFIFO_IsFull.simps) simp
    moreover have "\<exists>n. wait_while_TXFIFO_IsFull txfull (Suc k) = Some n"
      using Suc.prems by (intro Suc.IH) simp
    ultimately show ?thesis by simp
  next
    case False
    then show ?thesis
      by (subst wait_while_TXFIFO_IsFull.simps) simp
  qed
qed

lemma wait_Some_not_full:
  assumes "wait_while_TXFIFO_IsFull txfull k = Some n"
  shows "\<not> txfull n"
proof (rule wait_while_TXFIFO_IsFull.raw_induct
         [where P = "\<lambda>f j m. \<not> f m" and txfull = txfull and k = k and y = n])
  fix w :: "(nat \<Rightarrow> bool) \<Rightarrow> nat \<Rightarrow> nat option" and f j m
  assume IH: "\<And>g i y. w g i = Some y \<Longrightarrow> \<not> g y"
    and eq: "(if f j then w f (Suc j) else Some j) = Some m"
  show "\<not> f m"
  proof (cases "f j")
    case True
    with eq have "w f (Suc j) = Some m" by simp
    then show ?thesis by (rule IH)
  next
    case False
    with eq show ?thesis by simp
  qed
next
  show "wait_while_TXFIFO_IsFull txfull k = Some n"
    by (rule assms)
qed

lemma wait_never_free:
  "(\<And>i. txfull i) \<Longrightarrow> wait_while_TXFIFO_IsFull txfull k = None"
proof (cases "wait_while_TXFIFO_IsFull txfull k")
  case None
  then show ?thesis .
next
  case (Some n)
  assume "\<And>i. txfull i"
  with wait_Some_not_full [OF Some] show ?thesis by simp
qed

lemma USIC0_0_IRQHandler_push:
  assumes "tx_index s < NUM_DATA" and "\<not> txfull n"
  shows "USIC0_0_IRQHandler txfull s =
           Inr (s\<lparr>tx_index := tx_index s + 1,
                  tx_pushed := tx_pushed s @ [ucast (tx_data s ! unat (tx_index s))]\<rparr>)"
proof -
  from assms(2) have "\<not> txfull (0 + n)" by simp
  then obtain m where "wait_while_TXFIFO_IsFull txfull 0 = Some m"
    using wait_returns by blast
  then show ?thesis
    using assms(1) by (simp add: USIC0_0_IRQHandler_def XMC_UART_CH_Transmit_def)
qed



lemma USIC0_0_IRQHandler_hangs:
  assumes "tx_index s < NUM_DATA" and "\<And>i. txfull i"
  shows "USIC0_0_IRQHandler txfull s = Inl (Busy_wait_forever, s)"
  using assms(1) by (simp add: USIC0_0_IRQHandler_def wait_never_free [of txfull 0, OF assms(2)])

lemma USIC0_0_IRQHandler_flag:
  "USIC0_0_IRQHandler txfull s = Inr t \<Longrightarrow> flag t = flag s \<and> rx_index t = rx_index s"
  by (auto simp: USIC0_0_IRQHandler_def XMC_UART_CH_Transmit_def
                 XMC_USIC_CH_TXFIFO_DisableEvent_def
           split: if_splits option.splits)




section \<open>The drain loop of the receive handler\<close>

text \<open>The three ways one test of the drain loop can go.\<close>

lemma rx_drain_empty: "rx_fifo s = [] \<Longrightarrow> rx_drain s = Inr s"
  by (subst rx_drain.simps) (simp add: XMC_USIC_CH_RXFIFO_IsEmpty_def)

lemma rx_drain_step:
  "rx_fifo s = w # ws \<Longrightarrow> rx_index s < NUM_DATA \<Longrightarrow>
   rx_drain s =
     rx_drain (s\<lparr>rx_fifo := ws, rx_data := (rx_data s)[unat (rx_index s) := ucast w],
                 rx_index := rx_index s + 1\<rparr>)"
  by (subst rx_drain.simps)
     (simp add: XMC_USIC_CH_RXFIFO_IsEmpty_def XMC_UART_CH_GetReceivedData_def)

lemma rx_drain_overrun:
  "rx_fifo s = w # ws \<Longrightarrow> \<not> rx_index s < NUM_DATA \<Longrightarrow>
   rx_drain s = Inl (Rx_store_out_of_bounds, s\<lparr>rx_fifo := ws\<rparr>)"
  by (subst rx_drain.simps)
     (simp add: XMC_USIC_CH_RXFIFO_IsEmpty_def XMC_UART_CH_GetReceivedData_def)

text \<open>
  When the pending words fit into the rest of the buffer, the loop stores all of them and
  advances the cursor by their number.
\<close>

lemma rx_drain_ok:
  "rx_fifo s = ws \<Longrightarrow> unat (rx_index s) + length ws \<le> unat NUM_DATA \<Longrightarrow>
   rx_drain s =
     Inr (s\<lparr>rx_fifo := [],
            rx_data := store_words (unat (rx_index s)) ws (rx_data s),
            rx_index := rx_index s + of_nat (length ws)\<rparr>)"
proof (induction ws arbitrary: s)
  case Nil
  then show ?case
    by (simp add: rx_drain_empty)
next
  case (Cons w ws)
  let ?s1 = "s\<lparr>rx_fifo := ws, rx_data := (rx_data s)[unat (rx_index s) := ucast w],
               rx_index := rx_index s + 1\<rparr>"
  from Cons.prems have lt: "rx_index s < NUM_DATA"
    by (simp add: cursor_less_iff)
  have u: "unat (rx_index s + 1) = Suc (unat (rx_index s))"
    by (rule unat_cursor_succ [OF lt])
  have "rx_drain s = rx_drain ?s1"
    using Cons.prems(1) lt by (rule rx_drain_step)
  also have "\<dots> = Inr (?s1\<lparr>rx_fifo := [],
            rx_data := store_words (unat (rx_index ?s1)) ws (rx_data ?s1),
            rx_index := rx_index ?s1 + of_nat (length ws)\<rparr>)"
    using Cons.prems(2) u by (intro Cons.IH) simp_all
  finally show ?case
    by (simp add: u add.assoc)
qed

text \<open>When they do not fit, the loop reaches a store outside the buffer.\<close>

lemma rx_drain_fault:
  "rx_fifo s = ws \<Longrightarrow> unat NUM_DATA < unat (rx_index s) + length ws \<Longrightarrow> ws \<noteq> [] \<Longrightarrow>
   \<exists>t. rx_drain s = Inl (Rx_store_out_of_bounds, t) \<and> \<not> rx_index t < NUM_DATA"
proof (induction ws arbitrary: s)
  case Nil
  then show ?case by simp
next
  case (Cons w ws)
  show ?case
  proof (cases "rx_index s < NUM_DATA")
    case True
    let ?s1 = "s\<lparr>rx_fifo := ws, rx_data := (rx_data s)[unat (rx_index s) := ucast w],
                 rx_index := rx_index s + 1\<rparr>"
    have u: "unat (rx_index s + 1) = Suc (unat (rx_index s))"
      by (rule unat_cursor_succ [OF True])
    have step: "rx_drain s = rx_drain ?s1"
      using Cons.prems(1) True by (rule rx_drain_step)
    from True Cons.prems(2) have ne: "ws \<noteq> []"
      by (auto simp: cursor_less_iff)
    have "\<exists>t. rx_drain ?s1 = Inl (Rx_store_out_of_bounds, t) \<and> \<not> rx_index t < NUM_DATA"
      using Cons.prems(2) u ne by (intro Cons.IH) simp_all
    then show ?thesis
      unfolding step .
  next
    case False
    have "rx_drain s = Inl (Rx_store_out_of_bounds, s\<lparr>rx_fifo := ws\<rparr>)"
      using Cons.prems(1) False by (rule rx_drain_overrun)
    with False show ?thesis by simp
  qed
qed

lemma rx_drain_Inr:
  assumes "rx_drain s = Inr s1"
  shows "s1 = s\<lparr>rx_fifo := [],
                 rx_data := store_words (unat (rx_index s)) (rx_fifo s) (rx_data s),
                 rx_index := rx_index s + of_nat (length (rx_fifo s))\<rparr>
       \<and> unat (rx_index s1) = unat (rx_index s) + length (rx_fifo s)"
proof (cases "rx_fifo s = []")
  case True
  then show ?thesis
    using assms by (simp add: rx_drain_empty)
next
  case False
  have room: "unat (rx_index s) + length (rx_fifo s) \<le> unat NUM_DATA"
  proof (rule ccontr)
    assume "\<not> ?thesis"
    then have "unat NUM_DATA < unat (rx_index s) + length (rx_fifo s)"
      by simp
    from rx_drain_fault [OF refl this False] assms show False
      by auto
  qed
  have eq: "s1 = s\<lparr>rx_fifo := [],
                 rx_data := store_words (unat (rx_index s)) (rx_fifo s) (rx_data s),
                 rx_index := rx_index s + of_nat (length (rx_fifo s))\<rparr>"
    using rx_drain_ok [OF refl room] assms by simp
  have "unat (rx_index s + of_nat (length (rx_fifo s))) = unat (rx_index s) + length (rx_fifo s)"
    using room by (simp add: NUM_DATA_def unat_word_ariths unat_of_nat)
  with eq show ?thesis by simp
qed

text \<open>Facts about the stored words.\<close>

lemma store_words_append:
  "store_words k (ws @ vs) xs = store_words (k + length ws) vs (store_words k ws xs)"
  by (induction ws arbitrary: k xs) simp_all

lemma length_store_words: "length (store_words k ws xs) = length xs"
  by (induction ws arbitrary: k xs) simp_all

lemma store_words_nth_below: "i < k \<Longrightarrow> store_words k ws xs ! i = xs ! i"
  by (induction ws arbitrary: k xs) simp_all

lemma store_words_nth:
  "k + length ws \<le> length xs \<Longrightarrow> i < length ws \<Longrightarrow> store_words k ws xs ! (k + i) = ucast (ws ! i)"
proof (induction ws arbitrary: k xs i)
  case Nil
  then show ?case by simp
next
  case (Cons w ws)
  show ?case
  proof (cases i)
    case 0
    then show ?thesis
      using Cons.prems by (simp add: store_words_nth_below)
  next
    case (Suc j)
    have "store_words (Suc k) ws (xs[k := ucast w]) ! (Suc k + j) = ucast (ws ! j)"
      using Cons.prems Suc by (intro Cons.IH) simp_all
    then show ?thesis
      using Suc by simp
  qed
qed

lemma store_words_all:
  assumes "length ws = length xs"
  shows "store_words 0 ws xs = map ucast ws"
proof (rule nth_equalityI)
  show "length (store_words 0 ws xs) = length (map ucast ws)"
    using assms by (simp add: length_store_words)
next
  fix i
  assume "i < length (store_words 0 ws xs)"
  then have i: "i < length ws"
    using assms by (simp add: length_store_words)
  have "store_words 0 ws xs ! (0 + i) = ucast (ws ! i)"
    using assms i by (intro store_words_nth) simp_all
  then show "store_words 0 ws xs ! i = map ucast ws ! i"
    using i by simp
qed

section \<open>The receive handler\<close>

text \<open>What the handler does after the drain loop.\<close>

lemma USIC0_1_IRQHandler_Inr:
  assumes "USIC0_1_IRQHandler b s = Inr s'"
  shows "\<exists>s1. rx_drain s = Inr s1
           \<and> rx_index s' = rx_index s1
           \<and> rx_fifo s' = rx_fifo s1
           \<and> rx_data s' = rx_data s1
           \<and> tx_data s' = tx_data s1
           \<and> flag s' = (if rx_index s1 = NUM_DATA then 1 else flag s1)
           \<and> rx_limit_calls s' =
               (if NUM_DATA - rx_index s1 < CYBSP_DEBUG_UART_RXFIFO_LIMIT b
                then rx_limit_calls s1 @ [(NUM_DATA - rx_index s1) - 1]
                else rx_limit_calls s1)"
proof (cases "rx_drain s")
  case (Inl e)
  with assms show ?thesis
    by (simp add: USIC0_1_IRQHandler_def)
next
  case (Inr s1)
  with assms show ?thesis
    by (auto simp: USIC0_1_IRQHandler_def Let_def XMC_USIC_CH_RXFIFO_SetSizeTriggerLimit_def
             split: if_splits)
qed

lemma USIC0_1_IRQHandler_returns:
  assumes "unat (rx_index s) + length (rx_fifo s) \<le> unat NUM_DATA"
  shows "\<exists>s'. USIC0_1_IRQHandler b s = Inr s'"
  by (simp add: USIC0_1_IRQHandler_def Let_def rx_drain_ok [OF refl assms])

lemma USIC0_1_IRQHandler_fault:
  assumes "unat NUM_DATA < unat (rx_index s) + length (rx_fifo s)" and "rx_fifo s \<noteq> []"
  shows "\<exists>t. USIC0_1_IRQHandler b s = Inl (Rx_store_out_of_bounds, t) \<and> \<not> rx_index t < NUM_DATA"
  using rx_drain_fault [OF refl assms] by (auto simp: USIC0_1_IRQHandler_def)

lemma USIC0_1_IRQHandler_ok:
  assumes "unat (rx_index s) + length (rx_fifo s) \<le> unat NUM_DATA"
  shows "\<exists>s'. USIC0_1_IRQHandler b s = Inr s'
           \<and> unat (rx_index s') = unat (rx_index s) + length (rx_fifo s)
           \<and> rx_fifo s' = []
           \<and> tx_data s' = tx_data s
           \<and> rx_data s' = store_words (unat (rx_index s)) (rx_fifo s) (rx_data s)
           \<and> flag s' = (if rx_index s' = NUM_DATA then 1 else flag s)"
proof -
  obtain s' where h: "USIC0_1_IRQHandler b s = Inr s'"
    using USIC0_1_IRQHandler_returns [OF assms] by blast
  then obtain s1 where d: "rx_drain s = Inr s1" and i: "rx_index s' = rx_index s1"
    and q: "rx_fifo s' = rx_fifo s1" and r: "rx_data s' = rx_data s1"
    and x: "tx_data s' = tx_data s1"
    and f: "flag s' = (if rx_index s1 = NUM_DATA then 1 else flag s1)"
    using USIC0_1_IRQHandler_Inr by blast
  note s1 = rx_drain_Inr [OF d, THEN conjunct1]
  note u = rx_drain_Inr [OF d, THEN conjunct2]
  have "rx_fifo s1 = []" "tx_data s1 = tx_data s" "flag s1 = flag s"
    "rx_data s1 = store_words (unat (rx_index s)) (rx_fifo s) (rx_data s)"
    by (subst s1, simp)+
  with h i q r x f u show ?thesis
    by simp
qed

section \<open>Setup in main\<close>

lemma fill_tx_data_frame:
  "fill_tx_data i s = s\<lparr>tx_data := tx_data (fill_tx_data i s)\<rparr>"
proof (induction i s rule: fill_tx_data.induct)
  case (1 i s)
  show ?case
  proof (cases "i < NUM_DATA")
    case True
    let ?s1 = "s\<lparr>tx_data := (tx_data s)[unat i := ucast i]\<rparr>"
    have step: "fill_tx_data i s = fill_tx_data (i + 1) ?s1"
      using True by (subst fill_tx_data.simps) simp
    have "fill_tx_data (i + 1) ?s1 = ?s1\<lparr>tx_data := tx_data (fill_tx_data (i + 1) ?s1)\<rparr>"
      using "1.IH" [OF True] .
    then show ?thesis
      unfolding step by simp
  next
    case False
    then have "fill_tx_data i s = s"
      by (subst fill_tx_data.simps) simp
    then show ?thesis by simp
  qed
qed

lemma main_setup_Inr:
  assumes "main_setup b txfull s = Inr u"
  shows "flag u = flag s \<and> rx_index u = rx_index s \<and> rx_data u = rx_data s
       \<and> rx_limit_calls u =
           (if NUM_DATA - rx_index s < CYBSP_DEBUG_UART_RXFIFO_LIMIT b
            then rx_limit_calls s @ [(NUM_DATA - rx_index s) - 1]
            else rx_limit_calls s)"
proof -
  obtain xs where f: "fill_tx_data 0 s = s\<lparr>tx_data := xs\<rparr>"
    using fill_tx_data_frame [of 0 s] by blast
  show ?thesis
    using assms
    by (auto simp: main_setup_def f Let_def XMC_UART_CH_Transmit_def XMC_UART_CH_Start_def
                   XMC_USIC_CH_RXFIFO_SetSizeTriggerLimit_def
             split: if_splits option.splits)
qed

lemma fill_tx_data_0:
  assumes "length (tx_data s) = unat NUM_DATA"
  shows "fill_tx_data 0 s = s\<lparr>tx_data := [0, 1, 2, 3, 4, 5, 6, 7, 8]\<rparr>"
proof -
  from assms have "length (tx_data s) = Suc (Suc (Suc (Suc (Suc (Suc (Suc (Suc (Suc 0))))))))"
    by (simp add: NUM_DATA_def)
  then obtain x0 x1 x2 x3 x4 x5 x6 x7 x8 where "tx_data s = [x0, x1, x2, x3, x4, x5, x6, x7, x8]"
    by (auto simp: length_Suc_conv)
  then show ?thesis
    by (simp add: fill_tx_data.simps NUM_DATA_def)
qed

lemma main_setup_ok:
  assumes "tx_index s = 0" and "length (tx_data s) = unat NUM_DATA" and "\<not> txfull n"
  shows "main_setup b txfull s =
           Inr ((if NUM_DATA - rx_index s < CYBSP_DEBUG_UART_RXFIFO_LIMIT b
                 then XMC_USIC_CH_RXFIFO_SetSizeTriggerLimit ((NUM_DATA - rx_index s) - 1)
                 else id)
                (s\<lparr>tx_data := [0, 1, 2, 3, 4, 5, 6, 7, 8],
                   irq0_priority := USIC0_0_IRQn_PRIORITY, irq0_enabled := True,
                   irq1_enabled := True, irq1_priority := USIC0_1_IRQn_PRIORITY,
                   uart_started := True,
                   tx_pushed := tx_pushed s @ [0],
                   tx_index := 1\<rparr>))"
proof -
  from assms(3) have "\<not> txfull (0 + n)" by simp
  then obtain m where w: "wait_while_TXFIFO_IsFull txfull 0 = Some m"
    using wait_returns by blast
  show ?thesis
    using assms(1)
    by (simp add: main_setup_def fill_tx_data_0 [OF assms(2)] w Let_def NUM_DATA_def
                  XMC_UART_CH_Start_def XMC_UART_CH_Transmit_def
                  XMC_USIC_CH_RXFIFO_SetSizeTriggerLimit_def)
qed

lemma sequential_nth:
  "i < 9 \<Longrightarrow> [0, 1, 2, 3, 4, 5, 6, 7, 8 :: u8] ! i = of_nat i"
proof -
  assume "i < 9"
  then have "i \<in> {0, 1, 2, 3, 4, 5, 6, 7, 8}"
    by auto
  then show ?thesis
    by auto
qed

text \<open>
  The seed push waits for the FIFO: the setup returns only if some poll read "not full", and
  with a FIFO that stays full it hangs after starting the UART, with nothing pushed.
\<close>

lemma main_setup_waits:
  assumes "main_setup b txfull s = Inr u"
  shows "\<exists>m. \<not> txfull m"
proof -
  from assms obtain m where "wait_while_TXFIFO_IsFull txfull 0 = Some m"
    by (auto simp: main_setup_def Let_def split: option.splits)
  then have "\<not> txfull m" by (rule wait_Some_not_full)
  then show ?thesis ..
qed

lemma main_setup_hangs:
  assumes "length (tx_data s) = unat NUM_DATA" and "\<And>k. txfull k"
  shows "main_setup b txfull s =
           Inl (Busy_wait_forever,
                s\<lparr>tx_data := [0, 1, 2, 3, 4, 5, 6, 7, 8],
                  irq0_priority := USIC0_0_IRQn_PRIORITY, irq0_enabled := True,
                  irq1_enabled := True, irq1_priority := USIC0_1_IRQn_PRIORITY,
                  uart_started := True\<rparr>)"
  by (simp add: main_setup_def fill_tx_data_0 [OF assms(1)] Let_def XMC_UART_CH_Start_def
                wait_never_free [of txfull 0, OF assms(2)])

text \<open>
  Every transmit interrupt taken while bytes remain advances the cursor by one.
\<close>

lemma tx_interrupts_advance:
  "irq0_enabled u \<Longrightarrow> txfifo_event u \<Longrightarrow> unat (tx_index u) + length irqs \<le> unat NUM_DATA \<Longrightarrow>
   (\<forall>f \<in> set irqs. \<exists>m. \<not> f m) \<Longrightarrow>
   \<exists>v. tx_interrupts irqs u = Inr v \<and> unat (tx_index v) = unat (tx_index u) + length irqs
       \<and> tx_data v = tx_data u"
proof (induction irqs arbitrary: u)
  case Nil
  then show ?case by simp
next
  case (Cons f rest)
  from Cons.prems(3) have lt: "tx_index u < NUM_DATA"
    by (simp add: cursor_less_iff)
  from Cons.prems(4) obtain m where m: "\<not> f m"
    by auto
  let ?u1 = "u\<lparr>tx_index := tx_index u + 1,
                tx_pushed := tx_pushed u @ [ucast (tx_data u ! unat (tx_index u))]\<rparr>"
  have h: "tx_interrupt f u = Inr ?u1"
    using Cons.prems(1,2) USIC0_0_IRQHandler_push [of u f m, OF lt m]
    by (simp add: tx_interrupt_def)
  have c: "unat (tx_index ?u1) = Suc (unat (tx_index u))"
    using unat_cursor_succ [OF lt] by simp
  have "\<exists>v. tx_interrupts rest ?u1 = Inr v
          \<and> unat (tx_index v) = unat (tx_index ?u1) + length rest \<and> tx_data v = tx_data ?u1"
    using Cons.prems c by (intro Cons.IH) simp_all
  then show ?case
    using h c by auto
qed

text \<open>
  C7, as stated, fails at the loop entry: the transmit interrupt is enabled before the first
  byte is pushed, so the handler can run before the endless loop begins. With one transmit
  interrupt taken after the seed push, the cursor is 2, not 1, when the loop begins, and the
  bytes pushed are 0 and 1.
\<close>

theorem transmit_interrupt_before_loop_entry:
  "outcome_fault (main_to_loop_entry xmc47_board 0 (full_for 2) [full_for 0] reset_state) = None
   \<and> irq0_enabled (outcome_state (main_startup xmc47_board 0 (full_for 2) reset_state))
   \<and> tx_index (outcome_state (main_startup xmc47_board 0 (full_for 2) reset_state)) = 1
   \<and> tx_index (outcome_state
         (main_to_loop_entry xmc47_board 0 (full_for 2) [full_for 0] reset_state)) = 2
   \<and> tx_pushed (outcome_state
         (main_to_loop_entry xmc47_board 0 (full_for 2) [full_for 0] reset_state)) = [0, 1]"
proof -
  have a: "tx_index reset_state = 0" and b: "length (tx_data reset_state) = unat NUM_DATA"
    and c: "\<not> full_for 2 2"
    by (simp_all add: reset_state_def NUM_DATA_def full_for_def)
  have k: "CY_RSLT_SUCCESS xmc47_board = 0" "CYBSP_DEBUG_UART_RXFIFO_LIMIT xmc47_board = 7"
    "rx_index reset_state = 0" "tx_pushed reset_state = []"
    by (simp_all add: xmc47_board_def reset_state_def)
  have r: "main_startup xmc47_board 0 (full_for 2) reset_state =
        Inr (reset_state\<lparr>tx_data := [0, 1, 2, 3, 4, 5, 6, 7, 8],
                   irq0_priority := USIC0_0_IRQn_PRIORITY, irq0_enabled := True,
                   irq1_enabled := True, irq1_priority := USIC0_1_IRQn_PRIORITY,
                   uart_started := True, tx_pushed := [0], tx_index := 1\<rparr>)"
    by (simp add: main_startup_def k NUM_DATA_def
                  main_setup_ok [of reset_state "full_for 2" 2 xmc47_board, OF a b c])
  show ?thesis
    by (simp only: main_to_loop_entry_def r) (simp add: tx_interrupt_def tx_eval)
qed

text \<open>
  C7, amended: from \<open>tx_index = 0\<close>, when the initialisation succeeds, the setup fills
  \<open>tx_data[i] = i\<close> for every \<open>i < NUM_DATA\<close>, enables both interrupts, starts the
  UART, busy-waits until the FIFO reads "not full" and then pushes \<open>tx_data[0]\<close>, which
  leaves \<open>tx_index = 1\<close> at the end of the setup and at the loop entry when no transmit
  interrupt is taken in between. The setup returns only if some poll read "not full"; with
  a FIFO that stays full it hangs with the UART started, nothing pushed and the cursor at
  0. Each of up to eight transmit interrupts taken between the seed push and the loop entry
  advances the cursor by one more.
\<close>

theorem setup_fills_buffer_and_seeds_first_byte:
  assumes "tx_index s = 0" and "length (tx_data s) = unat NUM_DATA"
  shows "(\<not> txfull n \<longrightarrow>
            (\<exists>u. main_startup b (CY_RSLT_SUCCESS b) txfull s = Inr u
               \<and> main_to_loop_entry b (CY_RSLT_SUCCESS b) txfull [] s = Inr u
               \<and> tx_data u = [0, 1, 2, 3, 4, 5, 6, 7, 8]
               \<and> (\<forall>i. i < unat NUM_DATA \<longrightarrow> tx_data u ! i = of_nat i)
               \<and> uart_started u \<and> irq0_enabled u \<and> irq1_enabled u
               \<and> tx_pushed u = tx_pushed s @ [ucast (tx_data u ! 0)]
               \<and> tx_index u = 1))
       \<and> (main_startup b (CY_RSLT_SUCCESS b) txfull s = Inr u' \<longrightarrow> (\<exists>m. \<not> txfull m))
       \<and> ((\<forall>k. txfull k) \<longrightarrow>
            (\<exists>h. main_startup b (CY_RSLT_SUCCESS b) txfull s = Inl (Busy_wait_forever, h)
               \<and> uart_started h \<and> tx_pushed h = tx_pushed s \<and> tx_index h = 0))
       \<and> (\<not> txfull n \<and> txfifo_event s \<and> length irqs < unat NUM_DATA
            \<and> (\<forall>f \<in> set irqs. \<exists>m. \<not> f m) \<longrightarrow>
            (\<exists>v. main_to_loop_entry b (CY_RSLT_SUCCESS b) txfull irqs s = Inr v
               \<and> unat (tx_index v) = 1 + length irqs))"
proof (intro conjI impI)
  assume f: "\<not> txfull n"
  have "\<forall>i. i < unat NUM_DATA \<longrightarrow> [0, 1, 2, 3, 4, 5, 6, 7, 8 :: u8] ! i = of_nat i"
    by (simp add: NUM_DATA_def sequential_nth)
  then show "\<exists>u. main_startup b (CY_RSLT_SUCCESS b) txfull s = Inr u
               \<and> main_to_loop_entry b (CY_RSLT_SUCCESS b) txfull [] s = Inr u
               \<and> tx_data u = [0, 1, 2, 3, 4, 5, 6, 7, 8]
               \<and> (\<forall>i. i < unat NUM_DATA \<longrightarrow> tx_data u ! i = of_nat i)
               \<and> uart_started u \<and> irq0_enabled u \<and> irq1_enabled u
               \<and> tx_pushed u = tx_pushed s @ [ucast (tx_data u ! 0)]
               \<and> tx_index u = 1"
    by (simp add: main_to_loop_entry_def main_startup_def
                  main_setup_ok [of s txfull n b, OF assms f]
                  XMC_USIC_CH_RXFIFO_SetSizeTriggerLimit_def)
next
  assume "main_startup b (CY_RSLT_SUCCESS b) txfull s = Inr u'"
  then have "main_setup b txfull s = Inr u'"
    by (simp add: main_startup_def)
  then show "\<exists>m. \<not> txfull m"
    by (rule main_setup_waits)
next
  assume "\<forall>k. txfull k"
  then have "\<And>k. txfull k" by simp
  from main_setup_hangs [OF assms(2) this, of b]
  show "\<exists>h. main_startup b (CY_RSLT_SUCCESS b) txfull s = Inl (Busy_wait_forever, h)
               \<and> uart_started h \<and> tx_pushed h = tx_pushed s \<and> tx_index h = 0"
    using assms(1) by (simp add: main_startup_def)
next
  assume h: "\<not> txfull n \<and> txfifo_event s \<and> length irqs < unat NUM_DATA
            \<and> (\<forall>f \<in> set irqs. \<exists>m. \<not> f m)"
  then have f: "\<not> txfull n" by simp
  let ?u = "(if NUM_DATA - rx_index s < CYBSP_DEBUG_UART_RXFIFO_LIMIT b
                 then XMC_USIC_CH_RXFIFO_SetSizeTriggerLimit ((NUM_DATA - rx_index s) - 1)
                 else id)
                (s\<lparr>tx_data := [0, 1, 2, 3, 4, 5, 6, 7, 8],
                   irq0_priority := USIC0_0_IRQn_PRIORITY, irq0_enabled := True,
                   irq1_enabled := True, irq1_priority := USIC0_1_IRQn_PRIORITY,
                   uart_started := True,
                   tx_pushed := tx_pushed s @ [0],
                   tx_index := 1\<rparr>)"
  have m: "main_setup b txfull s = Inr ?u"
    by (rule main_setup_ok [of s txfull n b, OF assms f])
  have u: "irq0_enabled ?u" "txfifo_event ?u" "unat (tx_index ?u) = 1"
    using h by (simp_all add: XMC_USIC_CH_RXFIFO_SetSizeTriggerLimit_def)
  have "unat (tx_index ?u) + length irqs \<le> unat NUM_DATA"
    using h by (simp only: u) simp
  from tx_interrupts_advance [OF u(1) u(2) this] h
  obtain v where "tx_interrupts irqs ?u = Inr v"
    and "unat (tx_index v) = unat (tx_index ?u) + length irqs"
    by blast
  then show "\<exists>v. main_to_loop_entry b (CY_RSLT_SUCCESS b) txfull irqs s = Inr v
               \<and> unat (tx_index v) = 1 + length irqs"
    by (simp only: main_to_loop_entry_def main_startup_def m u) simp
qed

theorem setup_fills_buffer_and_seeds_first_byte_witness:
  "tx_index reset_state = 0 \<and> length (tx_data reset_state) = unat NUM_DATA \<and> \<not> full_for 2 2
   \<and> outcome_fault (main_startup xmc47_board 0 (full_for 2) reset_state) = None
   \<and> tx_data (outcome_state (main_startup xmc47_board 0 (full_for 2) reset_state))
       = [0, 1, 2, 3, 4, 5, 6, 7, 8]
   \<and> uart_started (outcome_state (main_startup xmc47_board 0 (full_for 2) reset_state))
   \<and> tx_pushed (outcome_state (main_startup xmc47_board 0 (full_for 2) reset_state)) = [0]
   \<and> tx_index (outcome_state (main_startup xmc47_board 0 (full_for 2) reset_state)) = 1
   \<and> (\<exists>m. \<not> full_for 2 m)
   \<and> outcome_fault (main_startup xmc47_board 0 (\<lambda>k. True) reset_state) = Some Busy_wait_forever
   \<and> tx_pushed (outcome_state (main_startup xmc47_board 0 (\<lambda>k. True) reset_state)) = []
   \<and> tx_index (outcome_state (main_startup xmc47_board 0 (\<lambda>k. True) reset_state)) = 0
   \<and> outcome_fault (main_to_loop_entry xmc47_board 0 (full_for 2) [full_for 0, full_for 1]
         reset_state) = None
   \<and> unat (tx_index (outcome_state
         (main_to_loop_entry xmc47_board 0 (full_for 2) [full_for 0, full_for 1] reset_state)))
       = 3"
proof -
  have a: "tx_index reset_state = 0" and b: "length (tx_data reset_state) = unat NUM_DATA"
    and c: "\<not> full_for 2 2" and p: "tx_pushed reset_state = []"
    and e: "txfifo_event reset_state"
    by (simp_all add: reset_state_def NUM_DATA_def full_for_def)
  have ok: "CY_RSLT_SUCCESS xmc47_board = 0"
    by (simp add: xmc47_board_def)
  note T = setup_fills_buffer_and_seeds_first_byte
             [where s = reset_state and b = xmc47_board, OF a b, unfolded ok]
  from T [where txfull = "full_for 2" and n = 2 and irqs = "[]" and u' = reset_state,
          THEN conjunct1] c
  obtain u where r: "main_startup xmc47_board 0 (full_for 2) reset_state = Inr u"
    and d: "tx_data u = [0, 1, 2, 3, 4, 5, 6, 7, 8]"
    and s: "uart_started u"
    and q: "tx_pushed u = tx_pushed reset_state @ [ucast (tx_data u ! 0)]"
    and i: "tx_index u = 1"
    by blast
  from q have q': "tx_pushed u = [0]"
    by (simp add: d p)
  from T [where txfull = "full_for 2" and n = 2 and irqs = "[]" and u' = u,
          THEN conjunct2, THEN conjunct1] r
  have w: "\<exists>m. \<not> full_for 2 m"
    by blast
  from T [where txfull = "\<lambda>k. True" and n = 0 and irqs = "[]" and u' = reset_state,
          THEN conjunct2, THEN conjunct2, THEN conjunct1]
  obtain h where hg: "main_startup xmc47_board 0 (\<lambda>k. True) reset_state
                        = Inl (Busy_wait_forever, h)"
    and hp: "tx_pushed h = tx_pushed reset_state" and hi: "tx_index h = 0"
    by blast
  have irqs: "length [full_for 0, full_for 1] < unat NUM_DATA"
    "\<forall>f \<in> set [full_for 0, full_for 1]. \<exists>m. \<not> f m"
    by (auto simp: NUM_DATA_def full_for_def)
  from T [where txfull = "full_for 2" and n = 2 and irqs = "[full_for 0, full_for 1]"
            and u' = reset_state,
          THEN conjunct2, THEN conjunct2, THEN conjunct2] c e irqs
  obtain v where rv: "main_to_loop_entry xmc47_board 0 (full_for 2) [full_for 0, full_for 1]
                        reset_state = Inr v"
    and iv: "unat (tx_index v) = 1 + length [full_for 0, full_for 1]"
    by blast
  from iv have iv': "unat (tx_index v) = 3"
    by simp
  show ?thesis
    using a b c d s q' i w hp hi p iv'
    by (simp only: r hg rv outcome_fault_def outcome_state_def) simp
qed

text \<open>
  C9: when \<^verbatim>\<open>cybsp_init\<close> does not return success, \<^verbatim>\<open>main\<close> stops
  at the assertion, in the very state the initialisation left: the transmit buffer is not
  filled, no interrupt is enabled, the UART is not started, and nothing of the transmit,
  receive or comparison code has run.
\<close>

theorem init_failure_halts_before_setup:
  assumes "result \<noteq> CY_RSLT_SUCCESS b"
  shows "main_startup b result txfull s = Inl (Assert_halt, s)"
  using assms by (simp add: main_startup_def)

theorem init_failure_halts_before_setup_witness:
  "(1 :: u32) \<noteq> CY_RSLT_SUCCESS xmc47_board
   \<and> outcome_fault (main_startup xmc47_board 1 (full_for 0) reset_state) = Some Assert_halt
   \<and> tx_data (outcome_state (main_startup xmc47_board 1 (full_for 0) reset_state))
       = replicate 9 0
   \<and> \<not> irq0_enabled (outcome_state (main_startup xmc47_board 1 (full_for 0) reset_state))
   \<and> \<not> irq1_enabled (outcome_state (main_startup xmc47_board 1 (full_for 0) reset_state))
   \<and> \<not> uart_started (outcome_state (main_startup xmc47_board 1 (full_for 0) reset_state))
   \<and> tx_pushed (outcome_state (main_startup xmc47_board 1 (full_for 0) reset_state)) = []
   \<and> tx_index (outcome_state (main_startup xmc47_board 1 (full_for 0) reset_state)) = 0"
proof -
  have a: "(1 :: u32) \<noteq> CY_RSLT_SUCCESS xmc47_board"
    by (simp add: xmc47_board_def)
  have r: "main_startup xmc47_board 1 (full_for 0) reset_state = Inl (Assert_halt, reset_state)"
    using a by (rule init_failure_halts_before_setup)
  show ?thesis
    using a by (simp only: r outcome_fault_def outcome_state_def) (simp add: reset_state_def)
qed

section \<open>Cursor, completion flag and trigger limit\<close>

text \<open>
  C4: an invocation of the receive handler that returns has advanced \<open>rx_index\<close> by
  exactly the number of words it drained (all that were pending), and it returns whenever
  these fit into the buffer. It sets the flag exactly when \<open>rx_index\<close> equals
  \<open>NUM_DATA\<close> after draining: from a cleared flag, the flag is 1 afterwards if and only
  if the cursor is \<open>NUM_DATA\<close>. The transmit handler and the setup leave the flag as it
  is, and an iteration of the main loop clears it after a comparison pass and never sets it.
\<close>

theorem receive_cursor_and_completion_flag:
  "(unat (rx_index s) + length (rx_fifo s) \<le> unat NUM_DATA \<longrightarrow>
      (\<exists>s'. USIC0_1_IRQHandler b s = Inr s'))
   \<and> (USIC0_1_IRQHandler b s = Inr s' \<longrightarrow>
        unat (rx_index s') = unat (rx_index s) + length (rx_fifo s)
        \<and> rx_fifo s' = []
        \<and> flag s' = (if rx_index s' = NUM_DATA then 1 else flag s)
        \<and> (flag s = 0 \<longrightarrow> (flag s' = 1 \<longleftrightarrow> rx_index s' = NUM_DATA)))
   \<and> (USIC0_0_IRQHandler txfull s = Inr t \<longrightarrow> flag t = flag s)
   \<and> (main_setup b txfull s = Inr u \<longrightarrow> flag u = flag s)
   \<and> flag (main_loop_body b s) = (if flag s = 1 then 0 else flag s)"
proof (intro conjI impI)
  assume "unat (rx_index s) + length (rx_fifo s) \<le> unat NUM_DATA"
  then show "\<exists>s'. USIC0_1_IRQHandler b s = Inr s'"
    by (rule USIC0_1_IRQHandler_returns)
next
  assume h: "USIC0_1_IRQHandler b s = Inr s'"
  then obtain s1 where d: "rx_drain s = Inr s1" and i: "rx_index s' = rx_index s1"
    and q: "rx_fifo s' = rx_fifo s1"
    and f: "flag s' = (if rx_index s1 = NUM_DATA then 1 else flag s1)"
    using USIC0_1_IRQHandler_Inr by blast
  note s1 = rx_drain_Inr [OF d, THEN conjunct1]
  note u = rx_drain_Inr [OF d, THEN conjunct2]
  show "unat (rx_index s') = unat (rx_index s) + length (rx_fifo s)"
    using i u by simp
  show "rx_fifo s' = []"
    by (subst q, subst s1) simp
  have "flag s1 = flag s"
    by (subst s1) simp
  then show fl: "flag s' = (if rx_index s' = NUM_DATA then 1 else flag s)"
    using f i by simp
  show "flag s' = 1 \<longleftrightarrow> rx_index s' = NUM_DATA" if "flag s = 0"
    using fl that by simp
next
  assume "USIC0_0_IRQHandler txfull s = Inr t"
  then show "flag t = flag s"
    by (simp add: USIC0_0_IRQHandler_flag)
next
  assume "main_setup b txfull s = Inr u"
  then show "flag u = flag s"
    by (simp add: main_setup_Inr)
next
  show "flag (main_loop_body b s) = (if flag s = 1 then 0 else flag s)"
    by (simp add: main_loop_body_def)
qed

theorem receive_cursor_and_completion_flag_witness:
  "unat (rx_index tail_pending_state) + length (rx_fifo tail_pending_state) \<le> unat NUM_DATA
   \<and> outcome_fault (USIC0_1_IRQHandler xmc47_board tail_pending_state) = None
   \<and> unat (rx_index (outcome_state (USIC0_1_IRQHandler xmc47_board tail_pending_state))) = 9
   \<and> flag tail_pending_state = 0
   \<and> flag (outcome_state (USIC0_1_IRQHandler xmc47_board tail_pending_state)) = 1
   \<and> outcome_fault (USIC0_0_IRQHandler (full_for 2) mirrored_state) = None
   \<and> flag (outcome_state (USIC0_0_IRQHandler (full_for 2) mirrored_state)) = 1
   \<and> outcome_fault (main_setup xmc47_board (full_for 2) reset_state) = None
   \<and> flag (outcome_state (main_setup xmc47_board (full_for 2) reset_state)) = 0
   \<and> flag (main_loop_body xmc47_board mirrored_state) = 0"
proof -
  let ?s = tail_pending_state and ?b = xmc47_board
  have room: "unat (rx_index ?s) + length (rx_fifo ?s) \<le> unat NUM_DATA"
    by (simp add: tail_pending_state_def rx_arrival_def reset_state_def NUM_DATA_def)
  have f0: "flag ?s = 0" and i0: "unat (rx_index ?s) = 8" and q0: "length (rx_fifo ?s) = 1"
    by (simp_all add: tail_pending_state_def rx_arrival_def reset_state_def)
  from receive_cursor_and_completion_flag [where s = ?s and b = ?b] room
  obtain s' where h: "USIC0_1_IRQHandler ?b ?s = Inr s'"
    by blast
  from receive_cursor_and_completion_flag [where s = ?s and b = ?b and s' = s'] h f0 i0 q0
  have c: "unat (rx_index s') = 9" and fl: "flag s' = 1 \<longleftrightarrow> rx_index s' = NUM_DATA"
    by simp_all
  from c have "rx_index s' = NUM_DATA"
    by (simp add: NUM_DATA_def word_unat_eq_iff)
  with fl have f1: "flag s' = 1"
    by simp
  have "\<exists>t. USIC0_0_IRQHandler (full_for 2) mirrored_state = Inr t"
    by (simp add: tx_eval)
  then obtain t where t: "USIC0_0_IRQHandler (full_for 2) mirrored_state = Inr t" ..
  have fm: "flag mirrored_state = 1"
    by (simp add: mirrored_state_def reset_state_def)
  from receive_cursor_and_completion_flag
         [where s = mirrored_state and txfull = "full_for 2" and t = t] t fm
  have ft: "flag t = 1"
    by simp
  have "\<exists>u. main_setup ?b (full_for 2) reset_state = Inr u"
    using main_setup_ok [of reset_state "full_for 2" 2 ?b]
    by (simp add: reset_state_def NUM_DATA_def full_for_def)
  then obtain u where m: "main_setup ?b (full_for 2) reset_state = Inr u" ..
  have fr: "flag reset_state = 0"
    by (simp add: reset_state_def)
  from receive_cursor_and_completion_flag
         [where s = reset_state and b = ?b and txfull = "full_for 2" and u = u] m fr
  have fu: "flag u = 0"
    by simp
  from receive_cursor_and_completion_flag [where s = mirrored_state and b = ?b] fm
  have fp: "flag (main_loop_body ?b mirrored_state) = 0"
    by simp
  show ?thesis
    using room f0 c f1 ft fu fp
    by (simp only: h t m outcome_fault_def outcome_state_def) simp
qed

text \<open>
  While the cursor is below \<open>NUM_DATA\<close>, the value written is the number of bytes still
  expected minus one, read as a natural number.
\<close>

lemma remaining_minus_one:
  fixes c :: u32
  assumes "c < NUM_DATA"
  shows "unat ((NUM_DATA - c) - 1) = unat NUM_DATA - unat c - 1"
proof -
  from assms have le: "c \<le> NUM_DATA"
    by simp
  have d: "unat (NUM_DATA - c) = unat NUM_DATA - unat c"
    using le by (rule unat_sub)
  from assms have "unat c < unat NUM_DATA"
    by (simp add: word_less_nat_alt)
  with d have "1 \<le> unat (NUM_DATA - c)"
    by simp
  then have "1 \<le> NUM_DATA - c"
    by (simp add: word_le_nat_alt)
  then have "unat ((NUM_DATA - c) - 1) = unat (NUM_DATA - c) - unat (1 :: u32)"
    by (rule unat_sub)
  with d show ?thesis
    by simp
qed

text \<open>
  C6: whenever, after the drain loop, \<open>NUM_DATA - rx_index\<close> is below the original
  trigger limit, the receive handler reprograms the limit to
  \<open>(NUM_DATA - rx_index) - 1\<close>, and otherwise it leaves the limit alone; the setup in
  \<^verbatim>\<open>main\<close> does the same, once, with the cursor it starts with. The arithmetic is
  unsigned 32-bit.
\<close>

theorem trigger_limit_adjustment:
  "(USIC0_1_IRQHandler b s = Inr s' \<longrightarrow>
      rx_limit_calls s' =
        (if NUM_DATA - rx_index s' < CYBSP_DEBUG_UART_RXFIFO_LIMIT b
         then rx_limit_calls s @ [(NUM_DATA - rx_index s') - 1]
         else rx_limit_calls s))
   \<and> (main_setup b txfull s = Inr u \<longrightarrow>
        rx_index u = rx_index s
        \<and> rx_limit_calls u =
            (if NUM_DATA - rx_index u < CYBSP_DEBUG_UART_RXFIFO_LIMIT b
             then rx_limit_calls s @ [(NUM_DATA - rx_index u) - 1]
             else rx_limit_calls s))"
proof (intro conjI impI)
  assume "USIC0_1_IRQHandler b s = Inr s'"
  then obtain s1 where d: "rx_drain s = Inr s1" and i: "rx_index s' = rx_index s1"
    and l: "rx_limit_calls s' =
               (if NUM_DATA - rx_index s1 < CYBSP_DEBUG_UART_RXFIFO_LIMIT b
                then rx_limit_calls s1 @ [(NUM_DATA - rx_index s1) - 1]
                else rx_limit_calls s1)"
    using USIC0_1_IRQHandler_Inr by blast
  have "rx_limit_calls s1 = rx_limit_calls s"
    by (subst rx_drain_Inr [OF d, THEN conjunct1]) simp
  with l i show "rx_limit_calls s' =
        (if NUM_DATA - rx_index s' < CYBSP_DEBUG_UART_RXFIFO_LIMIT b
         then rx_limit_calls s @ [(NUM_DATA - rx_index s') - 1]
         else rx_limit_calls s)"
    by simp
next
  assume m: "main_setup b txfull s = Inr u"
  from main_setup_Inr [OF m] show "rx_index u = rx_index s"
    by simp
  from main_setup_Inr [OF m] show "rx_limit_calls u =
            (if NUM_DATA - rx_index u < CYBSP_DEBUG_UART_RXFIFO_LIMIT b
             then rx_limit_calls s @ [(NUM_DATA - rx_index u) - 1]
             else rx_limit_calls s)"
    by simp
qed

theorem trigger_limit_adjustment_witness:
  "outcome_fault (USIC0_1_IRQHandler xmc47_board seven_pending_state) = None
   \<and> rx_index (outcome_state (USIC0_1_IRQHandler xmc47_board seven_pending_state)) = 7
   \<and> rx_limit_calls (outcome_state (USIC0_1_IRQHandler xmc47_board seven_pending_state)) = [1]
   \<and> outcome_fault (main_setup xmc47_board (full_for 2) reset_state) = None
   \<and> rx_limit_calls (outcome_state (main_setup xmc47_board (full_for 2) reset_state)) = []
   \<and> outcome_fault (main_setup (xmc47_board\<lparr>CYBSP_DEBUG_UART_RXFIFO_LIMIT := 12\<rparr>)
                       (full_for 2) reset_state) = None
   \<and> rx_limit_calls (outcome_state
        (main_setup (xmc47_board\<lparr>CYBSP_DEBUG_UART_RXFIFO_LIMIT := 12\<rparr>)
           (full_for 2) reset_state)) = [8]"
proof -
  let ?h = "USIC0_1_IRQHandler xmc47_board seven_pending_state"
  let ?wide = "xmc47_board\<lparr>CYBSP_DEBUG_UART_RXFIFO_LIMIT := 12\<rparr>"
  let ?m = "main_setup xmc47_board (full_for 2) reset_state"
  let ?w = "main_setup ?wide (full_for 2) reset_state"
  have "\<exists>s'. ?h = Inr s' \<and> rx_index s' = 7"
    by (simp add: seven_pending_state_def rx_eval)
  then obtain sh where h: "?h = Inr sh" and hi: "rx_index sh = 7"
    by blast
  have "\<exists>u. ?m = Inr u"
    using main_setup_ok [of reset_state "full_for 2" 2 xmc47_board]
    by (simp add: reset_state_def NUM_DATA_def full_for_def)
  then obtain um where m: "?m = Inr um" ..
  have "\<exists>u. ?w = Inr u"
    using main_setup_ok [of reset_state "full_for 2" 2 ?wide]
    by (simp add: reset_state_def NUM_DATA_def full_for_def)
  then obtain uw where w: "?w = Inr uw" ..
  have z: "rx_limit_calls seven_pending_state = []" "rx_limit_calls reset_state = []"
    "rx_index reset_state = 0"
    by (simp_all add: seven_pending_state_def rx_arrival_def reset_state_def)
  from trigger_limit_adjustment
         [where s = seven_pending_state and b = xmc47_board and s' = sh] h hi z
  have l1: "rx_limit_calls sh = [1]"
    by (simp add: xmc47_board_def NUM_DATA_def)
  from trigger_limit_adjustment
         [where s = reset_state and b = xmc47_board and txfull = "full_for 2" and u = um] m z
  have l2: "rx_limit_calls um = []"
    by (simp add: xmc47_board_def NUM_DATA_def)
  from trigger_limit_adjustment
         [where s = reset_state and b = ?wide and txfull = "full_for 2" and u = uw] w z
  have l3: "rx_limit_calls uw = [8]"
    by (simp add: xmc47_board_def NUM_DATA_def)
  show ?thesis
    using hi l1 l2 l3
    by (simp only: h m w outcome_fault_def outcome_state_def) simp
qed

text \<open>
  The completion check does not end the handler: with a non-zero original limit, an
  invocation that leaves the cursor at \<open>NUM_DATA\<close> sets the flag and reprograms the limit
  with the wrapped value of \<open>0 - 1\<close>.
\<close>

lemma USIC0_1_IRQHandler_at_completion:
  assumes "USIC0_1_IRQHandler b s = Inr s'" and "rx_index s' = NUM_DATA"
    and "0 < CYBSP_DEBUG_UART_RXFIFO_LIMIT b"
  shows "flag s' = 1 \<and> rx_limit_calls s' = rx_limit_calls s @ [0xFFFFFFFF]"
proof -
  from assms(1) obtain s1 where d: "rx_drain s = Inr s1" and i: "rx_index s' = rx_index s1"
    and f: "flag s' = (if rx_index s1 = NUM_DATA then 1 else flag s1)"
    and l: "rx_limit_calls s' =
               (if NUM_DATA - rx_index s1 < CYBSP_DEBUG_UART_RXFIFO_LIMIT b
                then rx_limit_calls s1 @ [(NUM_DATA - rx_index s1) - 1]
                else rx_limit_calls s1)"
    using USIC0_1_IRQHandler_Inr by blast
  have "rx_limit_calls s1 = rx_limit_calls s"
    by (subst rx_drain_Inr [OF d, THEN conjunct1]) simp
  with f l i assms(2,3) show ?thesis
    by simp
qed

text \<open>
  C2: the trigger limit is reprogrammed even when the drain loop leaves
  \<open>rx_index = NUM_DATA\<close>. On the ordinary run with a trigger limit of 7, the first
  invocation drains eight bytes and lowers the limit to 0; the second drains the last byte,
  leaves the cursor at \<open>NUM_DATA\<close>, sets the flag, and then still calls the reprogramming
  with \<open>(NUM_DATA - rx_index) - 1\<close>, which is \<open>0xFFFFFFFF\<close> in unsigned 32-bit
  arithmetic. The second half states the same for the last invocation alone.
\<close>

theorem limit_reprogrammed_at_completion:
  "outcome_fault (rx_invocations xmc47_board [[0, 1, 2, 3, 4, 5, 6, 7], [8]] reset_state) = None
   \<and> rx_index (outcome_state
         (rx_invocations xmc47_board [[0, 1, 2, 3, 4, 5, 6, 7], [8]] reset_state)) = NUM_DATA
   \<and> flag (outcome_state
         (rx_invocations xmc47_board [[0, 1, 2, 3, 4, 5, 6, 7], [8]] reset_state)) = 1
   \<and> rx_limit_calls (outcome_state
         (rx_invocations xmc47_board [[0, 1, 2, 3, 4, 5, 6, 7], [8]] reset_state))
       = [0, 0xFFFFFFFF]
   \<and> rx_index tail_pending_state = 8 \<and> rx_fifo tail_pending_state = [8]
   \<and> outcome_fault (USIC0_1_IRQHandler xmc47_board tail_pending_state) = None
   \<and> rx_index (outcome_state (USIC0_1_IRQHandler xmc47_board tail_pending_state)) = NUM_DATA
   \<and> flag (outcome_state (USIC0_1_IRQHandler xmc47_board tail_pending_state)) = 1
   \<and> rx_limit_calls (outcome_state (USIC0_1_IRQHandler xmc47_board tail_pending_state))
       = [0, 0xFFFFFFFF]"
  by (simp add: tail_pending_state_def rx_eval)

section \<open>Sequences of receive handler invocations\<close>

text \<open>
  As long as everything that arrives fits into the buffer, a sequence of invocations runs
  without a fault, stores the words in the order of arrival and counts them; the flag is set
  once the cursor has reached \<open>NUM_DATA\<close>.
\<close>

lemma rx_invocations_ok:
  "rx_fifo s = [] \<Longrightarrow> unat (rx_index s) + sum_list (map length wss) \<le> unat NUM_DATA \<Longrightarrow>
   \<exists>s'. rx_invocations b wss s = Inr s'
      \<and> unat (rx_index s') = unat (rx_index s) + sum_list (map length wss)
      \<and> rx_fifo s' = []
      \<and> tx_data s' = tx_data s
      \<and> rx_data s' = store_words (unat (rx_index s)) (concat wss) (rx_data s)
      \<and> (wss \<noteq> [] \<and> unat (rx_index s') = unat NUM_DATA \<longrightarrow> flag s' = 1)"
proof (induction wss arbitrary: s)
  case Nil
  then show ?case by simp
next
  case (Cons ws wss)
  let ?a = "rx_arrival ws s"
  have a: "rx_fifo ?a = ws" "rx_index ?a = rx_index s" "rx_data ?a = rx_data s"
    "tx_data ?a = tx_data s" "flag ?a = flag s"
    using Cons.prems(1) by (simp_all add: rx_arrival_def)
  have "unat (rx_index ?a) + length (rx_fifo ?a) \<le> unat NUM_DATA"
    using Cons.prems(2) a by simp
  from USIC0_1_IRQHandler_ok [OF this, of b]
  obtain s1 where h: "USIC0_1_IRQHandler b ?a = Inr s1"
    and i1: "unat (rx_index s1) = unat (rx_index s) + length ws"
    and q1: "rx_fifo s1 = []"
    and x1: "tx_data s1 = tx_data s"
    and r1: "rx_data s1 = store_words (unat (rx_index s)) ws (rx_data s)"
    and f1: "flag s1 = (if rx_index s1 = NUM_DATA then 1 else flag s)"
    using a by auto
  have "unat (rx_index s1) + sum_list (map length wss) \<le> unat NUM_DATA"
    using Cons.prems(2) i1 by simp
  from Cons.IH [OF q1 this]
  obtain s' where t: "rx_invocations b wss s1 = Inr s'"
    and i2: "unat (rx_index s') = unat (rx_index s1) + sum_list (map length wss)"
    and q2: "rx_fifo s' = []"
    and x2: "tx_data s' = tx_data s1"
    and r2: "rx_data s' = store_words (unat (rx_index s1)) (concat wss) (rx_data s1)"
    and f2: "wss \<noteq> [] \<and> unat (rx_index s') = unat NUM_DATA \<longrightarrow> flag s' = 1"
    by blast
  have fl: "flag s' = 1" if e: "unat (rx_index s') = unat NUM_DATA"
  proof (cases "wss = []")
    case True
    with t have "s' = s1" by simp
    with e have "rx_index s1 = NUM_DATA"
      by (simp add: word_unat_eq_iff)
    with f1 \<open>s' = s1\<close> show ?thesis by simp
  next
    case False
    with f2 e show ?thesis by simp
  qed
  have "rx_invocations b (ws # wss) s = Inr s'"
    using h t by simp
  moreover have "unat (rx_index s') = unat (rx_index s) + sum_list (map length (ws # wss))"
    using i1 i2 by simp
  moreover have "rx_data s' = store_words (unat (rx_index s)) (concat (ws # wss)) (rx_data s)"
    using r1 r2 i1 by (simp add: store_words_append)
  ultimately show ?case
    using q2 x1 x2 fl by simp
qed

lemma sum_list_take_le:
  "sum_list (map length (take k wss)) \<le> sum_list (map length (wss :: 'a list list))"
proof -
  have "sum_list (map length wss) = sum_list (map length (take k wss @ drop k wss))"
    by simp
  also have "\<dots> = sum_list (map length (take k wss)) + sum_list (map length (drop k wss))"
    by (simp only: map_append sum_list_append)
  finally show ?thesis by simp
qed

text \<open>
  C3, as stated, fails: the drain loop has no bound. From \<open>rx_index = 0\<close>, an invocation
  that drains eight words followed by one that finds two words reaches a store at index
  \<open>NUM_DATA\<close>, outside the buffer.
\<close>

theorem receive_cursor_overrun:
  "outcome_fault (rx_invocations xmc47_board [[0, 1, 2, 3, 4, 5, 6, 7], [8, 9]] reset_state)
     = Some Rx_store_out_of_bounds
   \<and> rx_index (outcome_state
        (rx_invocations xmc47_board [[0, 1, 2, 3, 4, 5, 6, 7], [8, 9]] reset_state)) = NUM_DATA"
  by (simp add: USIC0_1_IRQHandler_def rx_arrival_def reset_state_def
     rx_drain.simps XMC_USIC_CH_RXFIFO_IsEmpty_def XMC_UART_CH_GetReceivedData_def NUM_DATA_def
     xmc47_board_def XMC_USIC_CH_RXFIFO_SetSizeTriggerLimit_def Let_def
     outcome_fault_def outcome_state_def)

text \<open>
  C3, amended: for every sequence of receive handler invocations that starts from
  \<open>rx_index = 0\<close> with an empty FIFO and in which at most \<open>NUM_DATA\<close> words arrive
  in total, every prefix of the sequence runs without a fault and leaves
  \<open>rx_index\<close> equal to the number of words drained so far, which is at most
  \<open>NUM_DATA\<close>. (\<open>k\<close> is the number of invocations carried out.)
\<close>

theorem receive_cursor_bounded_if_total_fits:
  assumes "rx_index s = 0" and "rx_fifo s = []"
    and "sum_list (map length wss) \<le> unat NUM_DATA"
  shows "\<exists>s'. rx_invocations b (take k wss) s = Inr s'
           \<and> unat (rx_index s') = sum_list (map length (take k wss))
           \<and> unat (rx_index s') \<le> unat NUM_DATA"
proof -
  have le: "sum_list (map length (take k wss)) \<le> unat NUM_DATA"
    using sum_list_take_le [of k wss] assms(3) by simp
  then have "unat (rx_index s) + sum_list (map length (take k wss)) \<le> unat NUM_DATA"
    using assms(1) by simp
  from rx_invocations_ok [OF assms(2) this, of b] le assms(1)
  show ?thesis by auto
qed

theorem receive_cursor_bounded_if_total_fits_witness:
  "rx_index reset_state = 0 \<and> rx_fifo reset_state = []
   \<and> sum_list (map length [[0, 1, 2, 3, 4, 5, 6, 7], [8 :: u16]]) \<le> unat NUM_DATA
   \<and> outcome_fault (rx_invocations xmc47_board [[0, 1, 2, 3, 4, 5, 6, 7]] reset_state) = None
   \<and> unat (rx_index (outcome_state
         (rx_invocations xmc47_board [[0, 1, 2, 3, 4, 5, 6, 7]] reset_state))) = 8
   \<and> outcome_fault (rx_invocations xmc47_board [[0, 1, 2, 3, 4, 5, 6, 7], [8]] reset_state) = None
   \<and> unat (rx_index (outcome_state
         (rx_invocations xmc47_board [[0, 1, 2, 3, 4, 5, 6, 7], [8]] reset_state))) = 9"
proof -
  let ?wss = "[[0, 1, 2, 3, 4, 5, 6, 7], [8 :: u16]]"
  have a: "rx_index reset_state = 0" and b: "rx_fifo reset_state = []"
    by (simp_all add: reset_state_def)
  have c: "sum_list (map length ?wss) \<le> unat NUM_DATA"
    by (simp add: NUM_DATA_def)
  from receive_cursor_bounded_if_total_fits [OF a b c, of xmc47_board 1]
  obtain s1 where r1: "rx_invocations xmc47_board [[0, 1, 2, 3, 4, 5, 6, 7]] reset_state = Inr s1"
    and c1: "unat (rx_index s1) = 8"
    by auto
  from receive_cursor_bounded_if_total_fits [OF a b c, of xmc47_board 2]
  obtain s2 where r2: "rx_invocations xmc47_board ?wss reset_state = Inr s2"
    and c2: "unat (rx_index s2) = 9"
    by auto
  show ?thesis
    using a b c c1 c2 by (simp only: r1 r2 outcome_fault_def outcome_state_def) simp
qed

text \<open>
  C8: two receive cycles that start from \<open>rx_index = 0\<close> with the same transmit
  buffer and in which the same \<open>NUM_DATA\<close> words arrive both end with the flag set and
  the same receive buffer, and the comparison pass then drives the indicator to the same
  level; whatever else differs between the start states (cursors of the transmitter, flag,
  old receive buffer, old indicator level) has no influence. The level after a pass is a
  function of the two buffers only.
\<close>

theorem second_cycle_same_indicator:
  assumes "rx_index s1 = 0" and "rx_fifo s1 = []" and "length (rx_data s1) = unat NUM_DATA"
    and "rx_index s2 = 0" and "rx_fifo s2 = []" and "length (rx_data s2) = unat NUM_DATA"
    and "tx_data s2 = tx_data s1"
    and "sum_list (map length wss) = unat NUM_DATA"
  shows "(\<exists>t1 t2. rx_invocations b wss s1 = Inr t1 \<and> rx_invocations b wss s2 = Inr t2
            \<and> flag t1 = 1 \<and> flag t2 = 1
            \<and> rx_data t1 = map ucast (concat wss) \<and> rx_data t2 = rx_data t1
            \<and> led (main_loop_body b t1) = last_index_level b (tx_data s1) (map ucast (concat wss))
            \<and> led (main_loop_body b t2) = led (main_loop_body b t1))
       \<and> (flag t = 1 \<and> flag u = 1 \<and> tx_data u = tx_data t \<and> rx_data u = rx_data t \<longrightarrow>
            led (main_loop_body b u) = led (main_loop_body b t))"
proof
  have ne: "wss \<noteq> []"
    using assms(8) by (auto simp: NUM_DATA_def)
  have len: "length (concat wss) = unat NUM_DATA"
    using assms(8) by (simp add: length_concat)
  have cyc: "\<exists>t. rx_invocations b wss s = Inr t \<and> flag t = 1 \<and> tx_data t = tx_data s
               \<and> rx_data t = map ucast (concat wss)"
    if i: "rx_index s = 0" and q: "rx_fifo s = []" and l: "length (rx_data s) = unat NUM_DATA"
    for s
  proof -
    have "unat (rx_index s) + sum_list (map length wss) \<le> unat NUM_DATA"
      using i assms(8) by simp
    from rx_invocations_ok [OF q this, of b]
    obtain t where r: "rx_invocations b wss s = Inr t"
      and c: "unat (rx_index t) = unat (rx_index s) + sum_list (map length wss)"
      and x: "tx_data t = tx_data s"
      and d: "rx_data t = store_words (unat (rx_index s)) (concat wss) (rx_data s)"
      and f: "wss \<noteq> [] \<and> unat (rx_index t) = unat NUM_DATA \<longrightarrow> flag t = 1"
      by blast
    have "flag t = 1"
      using f ne c i assms(8) by simp
    moreover have "rx_data t = map ucast (concat wss)"
      using d i len l by (simp add: store_words_all)
    ultimately show ?thesis
      using r x by simp
  qed
  from cyc [OF assms(1-3)] obtain t1 where t1: "rx_invocations b wss s1 = Inr t1"
    "flag t1 = 1" "tx_data t1 = tx_data s1" "rx_data t1 = map ucast (concat wss)"
    by blast
  from cyc [OF assms(4-6)] obtain t2 where t2: "rx_invocations b wss s2 = Inr t2"
    "flag t2 = 1" "tx_data t2 = tx_data s2" "rx_data t2 = map ucast (concat wss)"
    by blast
  have "led (main_loop_body b t1) = last_index_level b (tx_data s1) (map ucast (concat wss))"
    using t1 by (simp add: main_loop_body_pass)
  moreover have "led (main_loop_body b t2) = led (main_loop_body b t1)"
    using t1 t2 assms(7) by (simp add: main_loop_body_pass)
  ultimately show "\<exists>t1 t2. rx_invocations b wss s1 = Inr t1 \<and> rx_invocations b wss s2 = Inr t2
            \<and> flag t1 = 1 \<and> flag t2 = 1
            \<and> rx_data t1 = map ucast (concat wss) \<and> rx_data t2 = rx_data t1
            \<and> led (main_loop_body b t1) = last_index_level b (tx_data s1) (map ucast (concat wss))
            \<and> led (main_loop_body b t2) = led (main_loop_body b t1)"
    using t1 t2 by simp
next
  show "flag t = 1 \<and> flag u = 1 \<and> tx_data u = tx_data t \<and> rx_data u = rx_data t \<longrightarrow>
            led (main_loop_body b u) = led (main_loop_body b t)"
    by (simp add: main_loop_body_pass)
qed

theorem second_cycle_same_indicator_witness:
  "rx_index (reset_state\<lparr>tx_data := [0, 1, 2, 3, 4, 5, 6, 7, 8]\<rparr>) = 0
   \<and> rx_index rearmed_state = 0
   \<and> flag rearmed_state = 0
   \<and> tx_data rearmed_state = tx_data (reset_state\<lparr>tx_data := [0, 1, 2, 3, 4, 5, 6, 7, 8]\<rparr>)
   \<and> sum_list (map length [[0, 1, 2, 3, 4, 5, 6, 7], [0xFF :: u16]]) = unat NUM_DATA
   \<and> outcome_fault (rx_invocations xmc47_board [[0, 1, 2, 3, 4, 5, 6, 7], [0xFF]]
         (reset_state\<lparr>tx_data := [0, 1, 2, 3, 4, 5, 6, 7, 8]\<rparr>)) = None
   \<and> outcome_fault (rx_invocations xmc47_board [[0, 1, 2, 3, 4, 5, 6, 7], [0xFF]] rearmed_state)
       = None
   \<and> led (main_loop_body xmc47_board (outcome_state
         (rx_invocations xmc47_board [[0, 1, 2, 3, 4, 5, 6, 7], [0xFF]]
            (reset_state\<lparr>tx_data := [0, 1, 2, 3, 4, 5, 6, 7, 8]\<rparr>)))) = 0x10000
   \<and> led (main_loop_body xmc47_board (outcome_state
         (rx_invocations xmc47_board [[0, 1, 2, 3, 4, 5, 6, 7], [0xFF]] rearmed_state))) = 0x10000
   \<and> flag mirrored_state = 1
   \<and> led (main_loop_body xmc47_board (mirrored_state\<lparr>tx_index := 0, led := 0x10000\<rparr>))
       = led (main_loop_body xmc47_board mirrored_state)"
proof -
  let ?s1 = "reset_state\<lparr>tx_data := [0, 1, 2, 3, 4, 5, 6, 7, 8]\<rparr>"
  let ?wss = "[[0, 1, 2, 3, 4, 5, 6, 7], [0xFF :: u16]]"
  have a1: "rx_index ?s1 = 0" "rx_fifo ?s1 = []" "length (rx_data ?s1) = unat NUM_DATA"
    by (simp_all add: reset_state_def NUM_DATA_def)
  have a2: "rx_index rearmed_state = 0" "rx_fifo rearmed_state = []"
    "length (rx_data rearmed_state) = unat NUM_DATA"
    by (simp_all add: rearmed_state_def mirrored_state_def reset_state_def NUM_DATA_def)
  have f2: "flag rearmed_state = 0"
    by (simp add: rearmed_state_def mirrored_state_def reset_state_def)
  have x: "tx_data rearmed_state = tx_data ?s1"
    by (simp add: rearmed_state_def mirrored_state_def reset_state_def)
  have n: "sum_list (map length ?wss) = unat NUM_DATA"
    by (simp add: NUM_DATA_def)
  from second_cycle_same_indicator
         [where ?s1.0 = ?s1 and ?s2.0 = rearmed_state and wss = ?wss and b = xmc47_board
            and t = ?s1 and u = ?s1, OF a1 a2 x n]
  obtain t1 t2 where r1: "rx_invocations xmc47_board ?wss ?s1 = Inr t1"
    and r2: "rx_invocations xmc47_board ?wss rearmed_state = Inr t2"
    and l1: "led (main_loop_body xmc47_board t1)
               = last_index_level xmc47_board (tx_data ?s1) (map ucast (concat ?wss))"
    and l2: "led (main_loop_body xmc47_board t2) = led (main_loop_body xmc47_board t1)"
    by blast
  have "last_index_level xmc47_board (tx_data ?s1) (map ucast (concat ?wss)) = 0x10000"
    by (simp add: last_index_level_def xmc47_board_def NUM_DATA_def)
  with l1 l2 have "led (main_loop_body xmc47_board t1) = 0x10000"
    "led (main_loop_body xmc47_board t2) = 0x10000"
    by simp_all
  moreover have fm: "flag mirrored_state = 1"
    by (simp add: mirrored_state_def reset_state_def)
  moreover
  from second_cycle_same_indicator
         [where ?s1.0 = ?s1 and ?s2.0 = rearmed_state and wss = ?wss and b = xmc47_board
            and t = mirrored_state and u = "mirrored_state\<lparr>tx_index := 0, led := 0x10000\<rparr>",
          OF a1 a2 x n] fm
  have "led (main_loop_body xmc47_board (mirrored_state\<lparr>tx_index := 0, led := 0x10000\<rparr>))
          = led (main_loop_body xmc47_board mirrored_state)"
    by simp
  ultimately show ?thesis
    using a1 a2 f2 x n
    by (simp only: r1 r2 outcome_fault_def outcome_state_def) simp
qed

end
